theory Spec2Isabelle
  imports Main "HOL-Library.Sublist" "HOL-Library.Multiset"
begin

section \<open>Data model\<close>

subsection \<open>Python values of the request parameter mapping\<close>

text \<open>
  The request parameters are a \<^verbatim>\<open>Dict[str, Any]\<close> decoded from JSON. The values are
  modelled by \<open>pyval\<close>; floating point numbers are left out. \<open>truthy\<close> is Python's
  truth value of such a value, \<open>dict_get\<close> is \<^verbatim>\<open>d.get(k)\<close> (None for a missing key)
  and \<open>dict_has\<close> is \<^verbatim>\<open>k in d\<close>.
\<close>

datatype pyval =
    PNone
  | PBool bool
  | PInt int
  | PStr string
  | PList "pyval list"
  | PDict "(string \<times> pyval) list"

fun truthy :: "pyval \<Rightarrow> bool" where
  "truthy PNone = False"
| "truthy (PBool b) = b"
| "truthy (PInt i) = (i \<noteq> 0)"
| "truthy (PStr s) = (s \<noteq> [])"
| "truthy (PList xs) = (xs \<noteq> [])"
| "truthy (PDict kvs) = (kvs \<noteq> [])"

type_synonym pydict = "string \<rightharpoonup> pyval"

definition dict_get :: "pydict \<Rightarrow> string \<Rightarrow> pyval" where
  "dict_get d k = (case d k of None \<Rightarrow> PNone | Some v \<Rightarrow> v)"

definition dict_has :: "pydict \<Rightarrow> string \<Rightarrow> bool" where
  "dict_has d k = (d k \<noteq> None)"

text \<open>\<^verbatim>\<open>needle in haystack\<close> on strings: the needle occurs as a contiguous block.\<close>

definition str_in :: "string \<Rightarrow> string \<Rightarrow> bool" where
  "str_in needle haystack = sublist needle haystack"

subsection \<open>config/settings.py: StepStatus and FlowStep\<close>

datatype StepStatus = SUCCESS | FAILED | SKIPPED | CRITICAL_ERROR

record FlowStep =
  name :: string
  function_name :: string
  url_env_var :: string
  timeout :: int
  required_params :: "string list"
  parallel_group :: "string option"

subsection \<open>core/models.py: StepResult and ExecutionContext\<close>

text \<open>
  The fields \<^verbatim>\<open>duration\<close>, \<^verbatim>\<open>started_at\<close> and \<^verbatim>\<open>completed_at\<close> of a StepResult are
  readings of the wall clock; they are not part of the record below.
\<close>

record StepResult =
  step_name :: string
  status :: StepStatus
  response :: pyval
  error :: "string option"
  error_details :: "string option"
  url :: "string option"
  status_code :: "int option"

record ExecutionContext =
  execution_id :: string
  user_id :: string
  session_id :: string
  flow_name :: string
  request_data :: pydict
  results :: "StepResult list"

definition add_result :: "ExecutionContext \<Rightarrow> StepResult \<Rightarrow> ExecutionContext" where
  "add_result ctx result = ctx\<lparr>results := results ctx @ [result]\<rparr>"

section \<open>Group planner (core/flow\_executor.py)\<close>

text \<open>
  \<^verbatim>\<open>if step.parallel_group:\<close> tests the truth value of an optional string: None and the
  empty string are both false.
\<close>

definition tagged :: "FlowStep \<Rightarrow> bool" where
  "tagged step = (case parallel_group step of None \<Rightarrow> False | Some t \<Rightarrow> t \<noteq> [])"

text \<open>
  The loop of \<^verbatim>\<open>_group_steps_by_parallelism\<close> over the remaining steps, with its three
  variables \<^verbatim>\<open>groups\<close>, \<^verbatim>\<open>current_group\<close> and \<^verbatim>\<open>current_parallel_group\<close>; the first
  equation is the code after the loop.
\<close>

fun group_loop ::
  "FlowStep list \<Rightarrow> FlowStep list list \<Rightarrow> FlowStep list \<Rightarrow> string option \<Rightarrow> FlowStep list list"
where
  "group_loop [] groups current_group current_parallel_group =
     (if current_group \<noteq> [] then groups @ [current_group] else groups)"
| "group_loop (step # steps) groups current_group current_parallel_group =
     (if tagged step then
        (if parallel_group step = current_parallel_group then
           group_loop steps groups (current_group @ [step]) current_parallel_group
         else
           group_loop steps
             (if current_group \<noteq> [] then groups @ [current_group] else groups)
             [step] (parallel_group step))
      else
        (if current_group \<noteq> [] then
           group_loop steps ((groups @ [current_group]) @ [[step]]) [] None
         else
           group_loop steps (groups @ [[step]]) current_group current_parallel_group))"

definition group_steps_by_parallelism :: "FlowStep list \<Rightarrow> FlowStep list list" where
  "group_steps_by_parallelism steps = group_loop steps [] [] None"

text \<open>
  The grouping as the specification words it: an untagged step is a group of its own, a
  tagged step opens a group that takes the longest run of following steps with the same tag.
\<close>

definition same_tag :: "FlowStep \<Rightarrow> FlowStep \<Rightarrow> bool" where
  "same_tag s x = (parallel_group x = parallel_group s)"

function plan_spec :: "FlowStep list \<Rightarrow> FlowStep list list" where
  "plan_spec [] = []"
| "plan_spec (s # ss) =
     (if tagged s then (s # takeWhile (same_tag s) ss) # plan_spec (dropWhile (same_tag s) ss)
      else [s] # plan_spec ss)"
  by pat_completeness auto
termination
  by (relation "measure length") (auto simp: length_dropWhile_le less_Suc_eq_le)

text \<open>
  The two properties of a grouping that the specification names: every group is either one
  untagged step or a run of steps carrying the tag of its first step, and no group can be
  extended by the first step of the group that follows it.
\<close>

definition run_of_one_tag :: "FlowStep list \<Rightarrow> bool" where
  "run_of_one_tag g =
     (case g of [] \<Rightarrow> False
      | s # ss \<Rightarrow> if tagged s then list_all (same_tag s) ss else ss = [])"

fun runs_maximal :: "FlowStep list list \<Rightarrow> bool" where
  "runs_maximal (g # g' # gs) =
     (\<not> (g \<noteq> [] \<and> g' \<noteq> [] \<and> tagged (hd g) \<and> same_tag (hd g) (hd g')) \<and>
      runs_maximal (g' # gs))"
| "runs_maximal gs = True"

section \<open>Skip rules (core/flow\_router.py)\<close>

definition should_skip_step :: "FlowStep \<Rightarrow> pydict \<Rightarrow> bool \<times> string option" where
  "should_skip_step step request_data' =
     (if name step = ''match_usuario_profissao'' \<and> truthy (dict_get request_data' ''position_id'') then
        (True, Some ''position_id provided'')
      else if name step = ''match_candidato'' \<and> truthy (dict_get request_data' ''vacancy_id'') then
        (True, Some ''vacancy_id provided'')
      else if name step = ''match_usuario_carreira'' \<and>
              truthy (dict_get request_data' ''position_id'') \<and>
              truthy (dict_get request_data' ''career_name'') then
        (True, Some ''both position_id and career_name provided'')
      else (False, None))"

section \<open>Step runner (core/step\_executor.py)\<close>

subsection \<open>The surroundings of a step\<close>

text \<open>
  An exception is a value: the text \<^verbatim>\<open>str(e)\<close> and the text of
  \<^verbatim>\<open>traceback.format_exc()\<close>.
\<close>

datatype fault = Fault (fault_message: string) (fault_traceback: string)

text \<open>
  utils/http\_client.py: HttpResponse (without the clock reading \<^verbatim>\<open>duration\<close>) and its
  property \<^verbatim>\<open>is_success\<close>.
\<close>

record HttpResponse =
  resp_status_code :: int
  resp_body :: pyval
  resp_status :: string
  resp_url :: string
  resp_method :: string
  resp_error :: "string option"
  resp_headers :: "(string \<rightharpoonup> string) option"

definition is_success :: "HttpResponse \<Rightarrow> bool" where
  "is_success r = (200 \<le> resp_status_code r \<and> resp_status_code r < 300)"

text \<open>
  What a step reads from outside the program, and the transport it calls. \<open>'w\<close> is the
  state of the world the transport acts on: \<open>http_post\<close> is
  \<^verbatim>\<open>self.http_client.post(url, json_payload, headers, timeout)\<close>, which returns a
  response or raises, and leaves a new state of the world behind. \<open>getenv\<close> is
  \<^verbatim>\<open>os.getenv\<close>, and \<open>py_str\<close> is the text Python's string formatting gives to a value
  that is not a string.
\<close>

record 'w env =
  getenv :: "string \<Rightarrow> string option"
  py_str :: "pyval \<Rightarrow> string"
  http_post ::
    "'w \<Rightarrow> string \<Rightarrow> pydict \<Rightarrow> (string \<rightharpoonup> string) \<Rightarrow> int \<Rightarrow> (fault + HttpResponse) \<times> 'w"

definition format_value :: "'w env \<Rightarrow> pyval \<Rightarrow> string" where
  "format_value env v = (case v of PStr s \<Rightarrow> s | _ \<Rightarrow> py_str env v)"

text \<open>Decimal text of an integer, for \<^verbatim>\<open>f"HTTP {response.status_code}"\<close>.\<close>

fun str_of_nat :: "nat \<Rightarrow> string" where
  "str_of_nat n =
     (if n < 10 then [''0123456789'' ! n]
      else str_of_nat (n div 10) @ [''0123456789'' ! (n mod 10)])"

declare str_of_nat.simps [simp del]

definition str_of_int :: "int \<Rightarrow> string" where
  "str_of_int i = (if i < 0 then CHR ''-'' # str_of_nat (nat (- i)) else str_of_nat (nat i))"

definition get_url :: "'w env \<Rightarrow> FlowStep \<Rightarrow> string option" where
  "get_url env step = getenv env (url_env_var step)"

subsection \<open>\_prepare\_payload\<close>

text \<open>
  \<^verbatim>\<open>{k: v for k, v in {key: request_data.get(key) for key in keys}.items() if v is not None}\<close>
\<close>

definition non_null_params :: "pydict \<Rightarrow> string list \<Rightarrow> pydict" where
  "non_null_params request_data' keys =
     (\<lambda>k. if k \<in> set keys \<and> dict_get request_data' k \<noteq> PNone
          then Some (dict_get request_data' k) else None)"

definition prepare_payload :: "FlowStep \<Rightarrow> ExecutionContext \<Rightarrow> pydict" where
  "prepare_payload step ctx =
     (let payload = [''user_id'' \<mapsto> PStr (user_id ctx)] in
      if name step = ''create_embeddings'' then [''sessionId'' \<mapsto> PStr (session_id ctx)]
      else
        let payload =
              (if str_in ''vacancy'' (name step) then
                 payload ++ non_null_params (request_data ctx)
                   [''vacancy_id'', ''vacancy_name'', ''vacancy_description'']
               else payload);
            payload =
              (if str_in ''profession'' (name step) \<or> str_in ''carreira'' (name step) then
                 payload ++ non_null_params (request_data ctx)
                   [''position_id'', ''career_name'', ''position_name'']
               else payload)
        in payload)"

subsection \<open>\_prepare\_headers\<close>

text \<open>
  The loop \<^verbatim>\<open>for key in keys: if key in request_data: token = request_data.get(key); break\<close>:
  the value under the first key that is present, if any.
\<close>

fun first_present :: "pydict \<Rightarrow> string list \<Rightarrow> pyval option" where
  "first_present d [] = None"
| "first_present d (key # keys) =
     (if dict_has d key then Some (dict_get d key) else first_present d keys)"

definition vacancy_token_keys :: "string list" where
  "vacancy_token_keys =
     [''match_candidato_token'', ''match_analysis_user_vacancy_token'',
      ''gap_analysis_user_vacancy_token'', ''suggest_course_vacancy_token'']"

definition profession_token_keys :: "string list" where
  "profession_token_keys =
     [''match_user_profession_token'', ''match_user_career_token'',
      ''match_analysis_user_profession_token'', ''gap_analysis_user_profession_token'',
      ''suggest_course_profession_token'']"

text \<open>
  The generic credential keys of a step: the list for the steps of the vacancy class, else
  the list for the steps of the profession and career class, else none.
\<close>

definition generic_token_keys :: "FlowStep \<Rightarrow> string list" where
  "generic_token_keys step =
     (if str_in ''vacancy'' (name step) then vacancy_token_keys
      else if str_in ''profession'' (name step) \<or> str_in ''carreira'' (name step)
        then profession_token_keys
      else [])"

definition prepare_headers :: "'w env \<Rightarrow> FlowStep \<Rightarrow> ExecutionContext \<Rightarrow> (string \<rightharpoonup> string)" where
  "prepare_headers env step ctx =
     (let token_key = name step @ ''_token'';
          token = dict_get (request_data ctx) token_key;
          token =
            (if \<not> truthy token then
               (if str_in ''vacancy'' (name step) then
                  (case first_present (request_data ctx) vacancy_token_keys of
                     Some v \<Rightarrow> v | None \<Rightarrow> token)
                else if str_in ''profession'' (name step) \<or> str_in ''carreira'' (name step) then
                  (case first_present (request_data ctx) profession_token_keys of
                     Some v \<Rightarrow> v | None \<Rightarrow> token)
                else token)
             else token)
      in if truthy token then [''Authorization'' \<mapsto> ''Bearer '' @ format_value env token]
         else Map.empty)"

subsection \<open>execute\_step\<close>

text \<open>
  The body of the \<^verbatim>\<open>try\<close> block: a result on each of its three \<^verbatim>\<open>return\<close>s, a fault
  where the transport raises. The calls of the logger write a line and change nothing
  else; they are not modelled.
\<close>

definition execute_step_try ::
  "'w env \<Rightarrow> 'w \<Rightarrow> FlowStep \<Rightarrow> ExecutionContext \<Rightarrow> (fault + StepResult) \<times> 'w"
where
  "execute_step_try env w step ctx =
     (case should_skip_step step (request_data ctx) of
        (should_skip, skip_reason) \<Rightarrow>
          if should_skip then
            (Inr \<lparr>step_name = name step, status = SKIPPED, response = PNone,
                  error = Some (''Skipped: '' @
                            (case skip_reason of Some reason \<Rightarrow> reason | None \<Rightarrow> ''None'')),
                  error_details = None, url = None, status_code = None\<rparr>, w)
          else
            let not_configured =
                  (Inr \<lparr>step_name = name step, status = SKIPPED, response = PNone,
                        error = Some (''URL not configured: '' @ url_env_var step),
                        error_details = None, url = None, status_code = None\<rparr>, w)
            in
            case get_url env step of
              None \<Rightarrow> not_configured
            | Some url' \<Rightarrow>
                if url' = [] then not_configured
                else
                  let payload = prepare_payload step ctx;
                      headers = prepare_headers env step ctx
                  in
                  case http_post env w url' payload headers (timeout step) of
                    (Inl e, w') \<Rightarrow> (Inl e, w')
                  | (Inr resp, w') \<Rightarrow>
                      (Inr \<lparr>step_name = name step,
                            status = (if is_success resp then SUCCESS else FAILED),
                            response = resp_body resp,
                            error =
                              (if is_success resp then None
                               else Some (case resp_error resp of
                                            None \<Rightarrow> ''HTTP '' @ str_of_int (resp_status_code resp)
                                          | Some e \<Rightarrow>
                                              if e = [] then
                                                ''HTTP '' @ str_of_int (resp_status_code resp)
                                              else e)),
                            error_details = None, url = Some url',
                            status_code = Some (resp_status_code resp)\<rparr>, w'))"

text \<open>The whole of \<^verbatim>\<open>execute_step\<close>: the \<^verbatim>\<open>try\<close> block under its \<^verbatim>\<open>except Exception\<close>.\<close>

definition execute_step ::
  "'w env \<Rightarrow> 'w \<Rightarrow> FlowStep \<Rightarrow> ExecutionContext \<Rightarrow> StepResult \<times> 'w"
where
  "execute_step env w step ctx =
     (case execute_step_try env w step ctx of
        (Inr result, w') \<Rightarrow> (result, w')
      | (Inl e, w') \<Rightarrow>
          (\<lparr>step_name = name step, status = CRITICAL_ERROR, response = PNone,
            error = Some (fault_message e), error_details = Some (fault_traceback e),
            url = None, status_code = None\<rparr>, w'))"

text \<open>
  The two ways in which a step is not run: a skip rule matches, or the environment gives
  no address for the step (the variable is unset, or set to the empty string).
\<close>

definition skipped_by_rule :: "FlowStep \<Rightarrow> ExecutionContext \<Rightarrow> bool" where
  "skipped_by_rule step ctx = fst (should_skip_step step (request_data ctx))"

definition target_unresolved :: "'w env \<Rightarrow> FlowStep \<Rightarrow> bool" where
  "target_unresolved env step = (get_url env step = None \<or> get_url env step = Some [])"

section \<open>Flow execution engine (core/flow\_executor.py)\<close>

text \<open>
  The engine holds a step executor and the bound on the worker pool. The step executor is
  held as the call the engine makes, \<^verbatim>\<open>self.step_executor.execute_step(step, context)\<close>,
  which returns a result or raises; \<open>FlowExecutor_init\<close> is the constructor, which puts
  the step runner above behind it.
\<close>

type_synonym 'w runner =
  "'w \<Rightarrow> FlowStep \<Rightarrow> ExecutionContext \<Rightarrow> (fault + StepResult) \<times> 'w"

record 'w FlowExecutor =
  step_executor :: "'w runner"
  max_workers :: int

definition FlowExecutor_init :: "'w env \<Rightarrow> int \<Rightarrow> 'w FlowExecutor" where
  "FlowExecutor_init env max_workers' =
     \<lparr>step_executor =
        (\<lambda>w step ctx. case execute_step env w step ctx of (result, w') \<Rightarrow> (Inr result, w')),
      max_workers = max_workers'\<rparr>"

definition execute_single_step :: "'w FlowExecutor \<Rightarrow> 'w runner" where
  "execute_single_step fe w step ctx = step_executor fe w step ctx"

text \<open>
  The workers of a parallel group. The model runs them one at a time, in the order in
  which \<^verbatim>\<open>as_completed\<close> hands their futures back: \<open>pool w pending\<close> tells which of the
  pending steps (counted modulo their number) completes next in the world \<open>w\<close>, so every
  order of completion is the behaviour of some \<open>pool\<close>. \<^verbatim>\<open>future.result()\<close> gives the
  worker's result or raises what the worker raised; the \<^verbatim>\<open>except\<close> branch then builds a
  result of its own.
\<close>

type_synonym 'w pool = "'w \<Rightarrow> FlowStep list \<Rightarrow> nat"

definition remove_nth :: "nat \<Rightarrow> 'a list \<Rightarrow> 'a list" where
  "remove_nth i xs = take i xs @ drop (Suc i) xs"

function collect_completed ::
  "'w FlowExecutor \<Rightarrow> 'w pool \<Rightarrow> 'w \<Rightarrow> FlowStep list \<Rightarrow> ExecutionContext \<Rightarrow> StepResult list \<times> 'w"
where
  "collect_completed fe pool w pending ctx =
     (if pending = [] then ([], w)
      else
        case step_executor fe w (pending ! (pool w pending mod length pending)) ctx of
          (outcome, w') \<Rightarrow>
            case collect_completed fe pool w'
                   (remove_nth (pool w pending mod length pending) pending) ctx of
              (rs, w'') \<Rightarrow>
                ((case outcome of
                    Inr result \<Rightarrow> result
                  | Inl e \<Rightarrow>
                      \<lparr>step_name = name (pending ! (pool w pending mod length pending)),
                        status = CRITICAL_ERROR, response = PNone,
                        error = Some (''Unhandled exception: '' @ fault_message e),
                        error_details = Some (fault_traceback e),
                        url = None, status_code = None\<rparr>) # rs, w''))"
  by pat_completeness auto
termination
proof (relation "measure (\<lambda>(fe, pool, w, pending, ctx). length pending)", goal_cases)
  case 1
  show ?case by simp
next
  case (2 fe pool w pending ctx outcome w')
  then have "pool w pending mod length pending < length pending"
    by simp
  then show ?case
    by (simp add: remove_nth_def)
qed

declare collect_completed.simps [simp del]

text \<open>
  \<^verbatim>\<open>ThreadPoolExecutor(max_workers=n)\<close> raises ValueError unless \<open>0 < n\<close>.
\<close>

definition execute_parallel_steps ::
  "'w FlowExecutor \<Rightarrow> 'w pool \<Rightarrow> 'w \<Rightarrow> FlowStep list \<Rightarrow> ExecutionContext \<Rightarrow>
     (fault + StepResult list) \<times> 'w"
where
  "execute_parallel_steps fe pool w steps ctx =
     (if min (int (length steps)) (max_workers fe) \<le> 0 then
        (Inl (Fault ''max_workers must be greater than 0'' []), w)
      else
        case collect_completed fe pool w steps ctx of (rs, w') \<Rightarrow> (Inr rs, w'))"

text \<open>
  The loop of \<^verbatim>\<open>execute_flow\<close> over the remaining groups, with its variable
  \<^verbatim>\<open>results\<close> and the context it appends to. A fault is an exception that leaves
  \<^verbatim>\<open>execute_flow\<close>; the context then stays as the loop left it.
\<close>

fun execute_groups ::
  "'w FlowExecutor \<Rightarrow> 'w pool \<Rightarrow> 'w \<Rightarrow> FlowStep list list \<Rightarrow> StepResult list \<Rightarrow>
     ExecutionContext \<Rightarrow> (fault + StepResult list) \<times> ExecutionContext \<times> 'w"
where
  "execute_groups fe pool w [] results' ctx = (Inr results', ctx, w)"
| "execute_groups fe pool w (grp # groups) results' ctx =
     (if length grp = 1 then
        (case execute_single_step fe w (grp ! 0) ctx of
           (Inl e, w') \<Rightarrow> (Inl e, ctx, w')
         | (Inr result, w') \<Rightarrow>
             if status result = CRITICAL_ERROR then
               (Inr (results' @ [result]), add_result ctx result, w')
             else
               execute_groups fe pool w' groups (results' @ [result]) (add_result ctx result))
      else
        (case execute_parallel_steps fe pool w grp ctx of
           (Inl e, w') \<Rightarrow> (Inl e, ctx, w')
         | (Inr group_results, w') \<Rightarrow>
             if list_ex (\<lambda>r. status r = CRITICAL_ERROR) group_results then
               (Inr (results' @ group_results), foldl add_result ctx group_results, w')
             else
               execute_groups fe pool w' groups (results' @ group_results)
                 (foldl add_result ctx group_results)))"

definition execute_flow ::
  "'w FlowExecutor \<Rightarrow> 'w pool \<Rightarrow> 'w \<Rightarrow> FlowStep list \<Rightarrow> ExecutionContext \<Rightarrow>
     (fault + StepResult list) \<times> ExecutionContext \<times> 'w"
where
  "execute_flow fe pool w steps ctx =
     execute_groups fe pool w (group_steps_by_parallelism steps) [] ctx"

text \<open>A list of results holds a critical error.\<close>

definition critical_in :: "StepResult list \<Rightarrow> bool" where
  "critical_in rs = list_ex (\<lambda>r. status r = CRITICAL_ERROR) rs"

section \<open>Sample inputs\<close>

text \<open>Steps, contexts and surroundings on which the theorems below are run.\<close>

definition demo_step :: "string \<Rightarrow> string option \<Rightarrow> FlowStep" where
  "demo_step n tag = \<lparr>name = n, function_name = ''_call_'' @ n, url_env_var = ''URL_'' @ n,
     timeout = 120, required_params = [''user_id''], parallel_group = tag\<rparr>"

definition demo_context :: "(string \<times> pyval) list \<Rightarrow> ExecutionContext" where
  "demo_context params = \<lparr>execution_id = ''e1'', user_id = ''u1'', session_id = ''s1'',
     flow_name = ''first_login'', request_data = map_of params, results = []\<rparr>"

definition demo_env :: "string list env" where
  "demo_env =
     \<lparr>getenv = (\<lambda>v. if v = ''URL_gap_analysis_user_vacancy'' then Some ''http://gap'' else None),
      py_str = (\<lambda>v. ''?''),
      http_post = (\<lambda>w url' payload headers t.
         (Inr \<lparr>resp_status_code = 200, resp_body = PNone, resp_status = ''success'',
               resp_url = url', resp_method = ''POST'', resp_error = None,
               resp_headers = None\<rparr>, w @ [url']))\<rparr>"

definition demo_response :: "int \<Rightarrow> string option \<Rightarrow> HttpResponse" where
  "demo_response code err =
     \<lparr>resp_status_code = code, resp_body = PStr ''body'', resp_status = ''done'',
      resp_url = ''http://gap'', resp_method = ''POST'', resp_error = err,
      resp_headers = None\<rparr>"

definition demo_env_with :: "fault + HttpResponse \<Rightarrow> string list env" where
  "demo_env_with outcome =
     \<lparr>getenv = (\<lambda>v. if v = ''URL_gap_analysis_user_vacancy'' then Some ''http://gap'' else None),
      py_str = (\<lambda>v. ''?''),
      http_post = (\<lambda>w url' payload headers t. (outcome, w @ [url']))\<rparr>"

text \<open>
  A world that records the addresses the transport is called with. The transport raises at
  \<open>http://bad\<close>, answers 503 at \<open>http://down\<close> and 200 elsewhere; the variable \<open>URL_off\<close>
  is not set. In \<open>demo_pool\<close> the second of the pending workers completes first.
  \<open>summary\<close> keeps of a run the names and statuses returned, the names in the context
  and the calls of the transport.
\<close>

definition demo_flow_env :: "string list env" where
  "demo_flow_env =
     \<lparr>getenv = (\<lambda>v. if v = ''URL_off'' then None else Some (''http://'' @ drop 4 v)),
      py_str = (\<lambda>v. ''?''),
      http_post = (\<lambda>w url' payload headers t.
         (if url' = ''http://bad'' then Inl (Fault ''boom'' ''Traceback'')
          else if url' = ''http://down'' then Inr (demo_response 503 None)
          else Inr (demo_response 200 None), w @ [url']))\<rparr>"

definition demo_pool :: "string list pool" where
  "demo_pool w pending = 1"

definition demo_groups :: "FlowStep list list" where
  "demo_groups =
     [[demo_step ''a'' None],
      [demo_step ''b'' (Some ''p''), demo_step ''bad'' (Some ''p''), demo_step ''c'' (Some ''p'')],
      [demo_step ''d'' None]]"

definition summary ::
  "(fault + StepResult list) \<times> ExecutionContext \<times> string list \<Rightarrow>
     (string \<times> StepStatus) list option \<times> string list \<times> string list" where
  "summary run =
     (case run of (out, ctx', w') \<Rightarrow>
        (case out of Inl e \<Rightarrow> None | Inr rs \<Rightarrow> Some (map (\<lambda>r. (step_name r, status r)) rs),
         map step_name (results ctx'), w'))"

definition demo_steps :: "FlowStep list" where
  "demo_steps =
     [demo_step ''a'' None, demo_step ''b'' (Some ''p''), demo_step ''down'' (Some ''p''),
      demo_step ''c'' (Some ''p''), demo_step ''off'' None, demo_step ''d'' None]"

definition demo_earlier :: StepResult where
  "demo_earlier =
     \<lparr>step_name = ''earlier'', status = SUCCESS, response = PNone, error = None,
      error_details = None, url = None, status_code = None\<rparr>"

section \<open>Properties of the group planner\<close>

lemma group_loop_concat:
  "concat (group_loop steps groups cur cpg) = concat groups @ cur @ steps"
  by (induction steps groups cur cpg rule: group_loop.induct) auto

lemma group_loop_nonempty:
  "[] \<notin> set groups \<Longrightarrow> [] \<notin> set (group_loop steps groups cur cpg)"
  by (induction steps groups cur cpg rule: group_loop.induct) auto

text \<open>
  C2: the planner returns non-empty groups whose concatenation, in order, is the input
  list: no step is dropped, duplicated or moved.
\<close>

theorem plan_lossless:
  "concat (group_steps_by_parallelism steps) = steps \<and>
   [] \<notin> set (group_steps_by_parallelism steps)"
  by (simp add: group_steps_by_parallelism_def group_loop_concat group_loop_nonempty)

lemma tagged_iff: "tagged s \<longleftrightarrow> (\<exists>t. parallel_group s = Some t \<and> t \<noteq> [])"
  by (auto simp: tagged_def split: option.splits)

lemma same_tag_fun:
  "parallel_group s = Some t \<Longrightarrow> same_tag s = (\<lambda>x. parallel_group x = Some t)"
  by (auto simp: same_tag_def fun_eq_iff)

text \<open>
  The loop against the specification's grouping: with a group open under the tag \<open>t\<close> the
  loop extends it by the longest run of steps tagged \<open>t\<close>, with no group open it plans the
  remaining steps afresh.
\<close>

lemma group_loop_spec:
  "(cur \<noteq> [] \<longrightarrow> t \<noteq> [] \<longrightarrow>
      group_loop steps groups cur (Some t) =
        groups @ (cur @ takeWhile (\<lambda>x. parallel_group x = Some t) steps)
               # plan_spec (dropWhile (\<lambda>x. parallel_group x = Some t) steps))
   \<and> group_loop steps groups [] None = groups @ plan_spec steps"
proof (induction steps arbitrary: groups cur t)
  case Nil
  then show ?case by simp
next
  case (Cons step steps)
  show ?case
  proof (cases "tagged step")
    case True
    then obtain u where u: "parallel_group step = Some u" "u \<noteq> []"
      by (auto simp: tagged_iff)
    have st: "same_tag step = (\<lambda>x. parallel_group x = Some u)"
      using u(1) by (rule same_tag_fun)
    show ?thesis
      using True u Cons.IH[of "[step]" u groups] Cons.IH[of "cur @ [step]" t groups]
        Cons.IH[of "[step]" u "groups @ [cur]"]
      by (simp add: st)
  next
    case False
    then have nt: "parallel_group step \<noteq> Some t" if "t \<noteq> []" for t
      using that by (auto simp: tagged_iff)
    show ?thesis
      using False nt Cons.IH[of "[]" t "groups @ [[step]]"]
        Cons.IH[of "[]" t "(groups @ [cur]) @ [[step]]"]
      by simp
  qed
qed

lemma plan_refines: "group_steps_by_parallelism steps = plan_spec steps"
  using group_loop_spec[of "[]" "[]" steps "[]"]
  by (simp add: group_steps_by_parallelism_def)

lemma plan_spec_runs: "list_all run_of_one_tag (plan_spec steps)"
proof (induction steps rule: plan_spec.induct)
  case 1
  then show ?case by simp
next
  case (2 s ss)
  have "list_all (same_tag s) (takeWhile (same_tag s) ss)"
    by (simp add: list_all_iff) (meson set_takeWhileD)
  with 2 show ?case
    by (simp add: run_of_one_tag_def)
qed

lemma plan_spec_hd:
  "steps \<noteq> [] \<Longrightarrow>
     plan_spec steps \<noteq> [] \<and> hd (plan_spec steps) \<noteq> [] \<and> hd (hd (plan_spec steps)) = hd steps"
  by (cases steps) auto

lemma runs_maximal_Cons:
  "runs_maximal (g # gs) =
     ((gs \<noteq> [] \<longrightarrow> \<not> (g \<noteq> [] \<and> hd gs \<noteq> [] \<and> tagged (hd g) \<and> same_tag (hd g) (hd (hd gs))))
      \<and> runs_maximal gs)"
  by (cases gs) auto

lemma plan_spec_maximal: "runs_maximal (plan_spec steps)"
proof (induction steps rule: plan_spec.induct)
  case 1
  then show ?case by simp
next
  case (2 s ss)
  show ?case
  proof (cases "tagged s")
    case True
    let ?rest = "dropWhile (same_tag s) ss"
    have "\<not> same_tag s (hd ?rest)" if "?rest \<noteq> []"
      using that hd_dropWhile by blast
    moreover have "plan_spec ?rest \<noteq> [] \<Longrightarrow> ?rest \<noteq> []"
      by (cases ?rest) auto
    ultimately show ?thesis
      using True 2(1) plan_spec_hd[of ?rest]
      by (auto simp: runs_maximal_Cons)
  next
    case False
    then show ?thesis
      using 2(2) by (auto simp: runs_maximal_Cons)
  qed
qed

text \<open>
  C3: the planner's output is the specification's grouping: one group for every maximal
  run of neighbouring steps with the same non-empty tag and one group of a single step for
  every untagged step. Every group is such a run or such a single step, no group
  continues into the next one, and every group is a block of neighbours in the input, so
  that runs with the same tag which do not touch stay apart.
\<close>

theorem plan_maximal_runs:
  "group_steps_by_parallelism steps = plan_spec steps \<and>
   list_all run_of_one_tag (group_steps_by_parallelism steps) \<and>
   runs_maximal (group_steps_by_parallelism steps) \<and>
   (\<forall>g\<in>set (group_steps_by_parallelism steps). \<exists>before after. steps = before @ g @ after)"
proof -
  have "\<exists>before after. steps = before @ g @ after"
    if "g \<in> set (group_steps_by_parallelism steps)" for g
  proof -
    from that obtain a b where "group_steps_by_parallelism steps = a @ g # b"
      by (auto dest: split_list)
    then have "concat (group_steps_by_parallelism steps) = concat a @ g @ concat b"
      by simp
    moreover have "concat (group_steps_by_parallelism steps) = steps"
      by (simp add: group_steps_by_parallelism_def group_loop_concat)
    ultimately show ?thesis
      by metis
  qed
  then show ?thesis
    by (simp add: plan_refines plan_spec_runs plan_spec_maximal)
qed

text \<open>
  The example of the specification: A and C carry the tag \<open>x\<close>, B between them carries
  none, and the planner returns the three steps each on its own.
\<close>

theorem plan_maximal_runs_witness:
  "group_steps_by_parallelism
     [\<lparr>name = ''A'', function_name = ''f'', url_env_var = ''U'', timeout = 120,
        required_params = [], parallel_group = Some ''x''\<rparr>,
      \<lparr>name = ''B'', function_name = ''f'', url_env_var = ''U'', timeout = 120,
        required_params = [], parallel_group = None\<rparr>,
      \<lparr>name = ''C'', function_name = ''f'', url_env_var = ''U'', timeout = 120,
        required_params = [], parallel_group = Some ''x''\<rparr>]
   = [[\<lparr>name = ''A'', function_name = ''f'', url_env_var = ''U'', timeout = 120,
        required_params = [], parallel_group = Some ''x''\<rparr>],
      [\<lparr>name = ''B'', function_name = ''f'', url_env_var = ''U'', timeout = 120,
        required_params = [], parallel_group = None\<rparr>],
      [\<lparr>name = ''C'', function_name = ''f'', url_env_var = ''U'', timeout = 120,
        required_params = [], parallel_group = Some ''x''\<rparr>]]"
  using plan_maximal_runs
    [of "[\<lparr>name = ''A'', function_name = ''f'', url_env_var = ''U'', timeout = 120,
            required_params = [], parallel_group = Some ''x''\<rparr>,
          \<lparr>name = ''B'', function_name = ''f'', url_env_var = ''U'', timeout = 120,
            required_params = [], parallel_group = None\<rparr>,
          \<lparr>name = ''C'', function_name = ''f'', url_env_var = ''U'', timeout = 120,
            required_params = [], parallel_group = Some ''x''\<rparr>]"]
  by (simp add: tagged_def same_tag_def)

section \<open>Properties of the skip rules\<close>

text \<open>
  C10: the skip rules give (True, reason) in exactly three cases, by the name of the step
  and the truth values of \<open>position_id\<close>, \<open>vacancy_id\<close> and \<open>career_name\<close> in the
  request parameters, and (False, None) in every other case; nothing but the name of the
  step and the request parameters enters the result.
\<close>

theorem should_skip_step_cases:
  "(fst (should_skip_step step rd) \<longleftrightarrow>
      name step = ''match_usuario_profissao'' \<and> truthy (dict_get rd ''position_id'') \<or>
      name step = ''match_candidato'' \<and> truthy (dict_get rd ''vacancy_id'') \<or>
      name step = ''match_usuario_carreira'' \<and> truthy (dict_get rd ''position_id'') \<and>
        truthy (dict_get rd ''career_name'')) \<and>
   (should_skip_step step rd = (False, None) \<or>
    (\<exists>reason. should_skip_step step rd = (True, Some reason))) \<and>
   should_skip_step step rd =
     should_skip_step \<lparr>name = name step, function_name = [], url_env_var = [], timeout = 0,
       required_params = [], parallel_group = None\<rparr> rd"
  by (simp add: should_skip_step_def)

theorem should_skip_step_cases_witness:
  "should_skip_step (demo_step ''match_usuario_carreira'' (Some ''profession_parallel''))
     (map_of [(''position_id'', PStr ''p1''), (''career_name'', PStr ''c1'')])
     = (True, Some ''both position_id and career_name provided'') \<and>
   should_skip_step (demo_step ''match_usuario_carreira'' (Some ''profession_parallel''))
     (map_of [(''position_id'', PStr ''p1'')]) = (False, None)"
  using should_skip_step_cases
    [of "demo_step ''match_usuario_carreira'' (Some ''profession_parallel'')"
        "map_of [(''position_id'', PStr ''p1''), (''career_name'', PStr ''c1'')]"]
  by (simp add: should_skip_step_def demo_step_def dict_get_def)

section \<open>Properties of the payload and the headers\<close>

lemma non_null_params_apply:
  "non_null_params rd keys k =
     (if k \<in> set keys \<and> dict_get rd k \<noteq> PNone then Some (dict_get rd k) else None)"
  by (simp add: non_null_params_def)

text \<open>
  C8: for \<open>create_embeddings\<close> the payload is the session id under \<open>sessionId\<close> and
  nothing else. For every other step it holds \<open>user_id\<close>, the values that are not None
  among \<open>vacancy_id\<close>, \<open>vacancy_name\<close>, \<open>vacancy_description\<close> when the name of the
  step contains \<open>vacancy\<close>, the values that are not None among \<open>position_id\<close>,
  \<open>career_name\<close>, \<open>position_name\<close> when it contains \<open>profession\<close> or \<open>carreira\<close>,
  and no other key.
\<close>

theorem prepare_payload_shape:
  "(name step = ''create_embeddings'' \<longrightarrow>
      prepare_payload step ctx = [''sessionId'' \<mapsto> PStr (session_id ctx)]) \<and>
   (name step \<noteq> ''create_embeddings'' \<longrightarrow>
      (\<forall>k. prepare_payload step ctx k =
         (if k = ''user_id'' then Some (PStr (user_id ctx))
          else if str_in ''vacancy'' (name step) \<and>
                  k \<in> {''vacancy_id'', ''vacancy_name'', ''vacancy_description''} \<and>
                  dict_get (request_data ctx) k \<noteq> PNone
            then Some (dict_get (request_data ctx) k)
          else if (str_in ''profession'' (name step) \<or> str_in ''carreira'' (name step)) \<and>
                  k \<in> {''position_id'', ''career_name'', ''position_name''} \<and>
                  dict_get (request_data ctx) k \<noteq> PNone
            then Some (dict_get (request_data ctx) k)
          else None)))"
  by (auto simp: prepare_payload_def Let_def map_add_def non_null_params_apply split: option.splits)

theorem prepare_payload_shape_witness:
  "prepare_payload (demo_step ''create_embeddings'' None) (demo_context []) ''sessionId'' = Some (PStr ''s1'') \<and>
   prepare_payload (demo_step ''create_embeddings'' None) (demo_context []) ''user_id'' = None \<and>
   prepare_payload (demo_step ''gap_analysis_user_vacancy'' None)
     (demo_context [(''vacancy_id'', PStr ''v1''), (''vacancy_name'', PNone), (''position_id'', PStr ''p1'')]) ''vacancy_id'' = Some (PStr ''v1'') \<and>
   prepare_payload (demo_step ''gap_analysis_user_vacancy'' None)
     (demo_context [(''vacancy_id'', PStr ''v1''), (''vacancy_name'', PNone), (''position_id'', PStr ''p1'')]) ''vacancy_name'' = None \<and>
   prepare_payload (demo_step ''gap_analysis_user_vacancy'' None)
     (demo_context [(''vacancy_id'', PStr ''v1''), (''vacancy_name'', PNone), (''position_id'', PStr ''p1'')]) ''position_id'' = None"
  using prepare_payload_shape [of "demo_step ''create_embeddings'' None" "demo_context []"]
    prepare_payload_shape [of "demo_step ''gap_analysis_user_vacancy'' None"
      "demo_context [(''vacancy_id'', PStr ''v1''), (''vacancy_name'', PNone), (''position_id'', PStr ''p1'')]"]
  by (simp add: demo_step_def demo_context_def str_in_def sublist_code dict_get_def)

lemma first_present_split:
  "\<forall>k'\<in>set pre. \<not> dict_has d k' \<Longrightarrow> dict_has d k \<Longrightarrow>
     first_present d (pre @ k # post) = Some (dict_get d k)"
  by (induction pre) auto

lemma first_present_none:
  "\<forall>k\<in>set keys. \<not> dict_has d k \<Longrightarrow> first_present d keys = None"
  by (induction keys) auto

lemma prepare_headers_fallback:
  "\<not> truthy (dict_get (request_data ctx) (name step @ ''_token'')) \<Longrightarrow>
   prepare_headers env step ctx =
     (case first_present (request_data ctx) (generic_token_keys step) of
        None \<Rightarrow> Map.empty
      | Some v \<Rightarrow> if truthy v then [''Authorization'' \<mapsto> ''Bearer '' @ format_value env v]
                  else Map.empty)"
  by (auto simp: prepare_headers_def generic_token_keys_def Let_def split: option.splits)

text \<open>
  C9, as amended: the key of the step, \<open>name_token\<close>, is looked up first, and a true value
  under it is the token, whatever the generic keys hold. The fallback is taken when that
  key is absent and also when it is present with a false value (None, the empty string,
  0): the token is then the value under the first key that is present in the list of the
  step's class, the vacancy list for a name that contains \<open>vacancy\<close>, else the profession
  and career list for a name that contains \<open>profession\<close> or \<open>carreira\<close>. The headers are
  the Authorization header \<open>Bearer token\<close> alone when the token is a true value, and
  empty otherwise.
\<close>

theorem prepare_headers_lookup:
  "(truthy (dict_get (request_data ctx) (name step @ ''_token'')) \<longrightarrow>
      prepare_headers env step ctx =
        [''Authorization'' \<mapsto>
           ''Bearer '' @ format_value env (dict_get (request_data ctx) (name step @ ''_token''))]) \<and>
   (\<not> truthy (dict_get (request_data ctx) (name step @ ''_token'')) \<longrightarrow>
      (\<forall>pre k post.
         generic_token_keys step = pre @ k # post \<and>
         (\<forall>k'\<in>set pre. \<not> dict_has (request_data ctx) k') \<and> dict_has (request_data ctx) k \<longrightarrow>
         prepare_headers env step ctx =
           (if truthy (dict_get (request_data ctx) k)
            then [''Authorization'' \<mapsto> ''Bearer '' @ format_value env (dict_get (request_data ctx) k)]
            else Map.empty)) \<and>
      ((\<forall>k\<in>set (generic_token_keys step). \<not> dict_has (request_data ctx) k) \<longrightarrow>
         prepare_headers env step ctx = Map.empty)) \<and>
   (\<not> dict_has (request_data ctx) (name step @ ''_token'') \<longrightarrow>
      \<not> truthy (dict_get (request_data ctx) (name step @ ''_token''))) \<and>
   dom (prepare_headers env step ctx) \<subseteq> {''Authorization''}"
proof (intro conjI impI allI)
  assume "truthy (dict_get (request_data ctx) (name step @ ''_token''))"
  then show "prepare_headers env step ctx =
        [''Authorization'' \<mapsto>
           ''Bearer '' @ format_value env (dict_get (request_data ctx) (name step @ ''_token''))]"
    by (simp add: prepare_headers_def Let_def)
next
  fix pre k post
  assume nt: "\<not> truthy (dict_get (request_data ctx) (name step @ ''_token''))"
    and sp: "generic_token_keys step = pre @ k # post \<and>
         (\<forall>k'\<in>set pre. \<not> dict_has (request_data ctx) k') \<and> dict_has (request_data ctx) k"
  then have "first_present (request_data ctx) (generic_token_keys step)
               = Some (dict_get (request_data ctx) k)"
    by (simp add: first_present_split)
  then show "prepare_headers env step ctx =
           (if truthy (dict_get (request_data ctx) k)
            then [''Authorization'' \<mapsto> ''Bearer '' @ format_value env (dict_get (request_data ctx) k)]
            else Map.empty)"
    using nt by (simp add: prepare_headers_fallback)
next
  assume nt: "\<not> truthy (dict_get (request_data ctx) (name step @ ''_token''))"
    and "\<forall>k\<in>set (generic_token_keys step). \<not> dict_has (request_data ctx) k"
  then have "first_present (request_data ctx) (generic_token_keys step) = None"
    by (simp add: first_present_none)
  then show "prepare_headers env step ctx = Map.empty"
    using nt by (simp add: prepare_headers_fallback)
next
  assume "\<not> dict_has (request_data ctx) (name step @ ''_token'')"
  then show "\<not> truthy (dict_get (request_data ctx) (name step @ ''_token''))"
    by (simp add: dict_has_def dict_get_def)
next
  show "dom (prepare_headers env step ctx) \<subseteq> {''Authorization''}"
    by (auto simp: prepare_headers_def Let_def split: if_splits option.splits)
qed

theorem prepare_headers_lookup_witness:
  "prepare_headers demo_env (demo_step ''gap_analysis_user_vacancy'' None)
     (demo_context [(''suggest_course_vacancy_token'', PStr ''t2''),
                    (''match_analysis_user_vacancy_token'', PStr ''t1'')])
     = [''Authorization'' \<mapsto> ''Bearer t1''] \<and>
   prepare_headers demo_env (demo_step ''gap_analysis_user_vacancy'' None)
     (demo_context [(''gap_analysis_user_vacancy_token'', PStr ''t0''),
                    (''match_candidato_token'', PStr ''t1'')])
     = [''Authorization'' \<mapsto> ''Bearer t0''] \<and>
   prepare_headers demo_env (demo_step ''match_analysis_user_profession'' None)
     (demo_context [(''suggest_course_profession_token'', PStr ''p2''),
                    (''match_user_career_token'', PStr ''p1'')])
     = [''Authorization'' \<mapsto> ''Bearer p1''] \<and>
   prepare_headers demo_env (demo_step ''match_usuario_carreira'' (Some ''profession_parallel''))
     (demo_context [(''match_candidato_token'', PStr ''t1'')])
     = Map.empty"
proof -
  let ?step = "demo_step ''gap_analysis_user_vacancy'' None"
  let ?c1 = "demo_context [(''suggest_course_vacancy_token'', PStr ''t2''),
                    (''match_analysis_user_vacancy_token'', PStr ''t1'')]"
  let ?c0 = "demo_context [(''gap_analysis_user_vacancy_token'', PStr ''t0''),
                    (''match_candidato_token'', PStr ''t1'')]"
  have absent: "\<not> truthy (dict_get (request_data ?c1) (name ?step @ ''_token''))"
    by (simp add: demo_step_def demo_context_def dict_get_def)
  have keys: "generic_token_keys ?step =
      [''match_candidato_token''] @ ''match_analysis_user_vacancy_token''
        # [''gap_analysis_user_vacancy_token'', ''suggest_course_vacancy_token'']"
    by (simp add: generic_token_keys_def vacancy_token_keys_def demo_step_def str_in_def
        sublist_code)
  have before: "\<forall>k'\<in>set [''match_candidato_token'']. \<not> dict_has (request_data ?c1) k'"
    by (simp add: demo_context_def dict_has_def)
  have here: "dict_has (request_data ?c1) ''match_analysis_user_vacancy_token''"
    by (simp add: demo_context_def dict_has_def)
  have "prepare_headers demo_env ?step ?c1 =
          (if truthy (dict_get (request_data ?c1) ''match_analysis_user_vacancy_token'')
           then [''Authorization'' \<mapsto> ''Bearer '' @
                  format_value demo_env
                    (dict_get (request_data ?c1) ''match_analysis_user_vacancy_token'')]
           else Map.empty)"
    using prepare_headers_lookup [of ?c1 ?step demo_env] absent keys before here
    by blast
  then have first: "prepare_headers demo_env ?step ?c1 = [''Authorization'' \<mapsto> ''Bearer t1'']"
    by (simp add: demo_context_def dict_get_def format_value_def)
  have present: "truthy (dict_get (request_data ?c0) (name ?step @ ''_token''))"
    by (simp add: demo_step_def demo_context_def dict_get_def)
  have "prepare_headers demo_env ?step ?c0 =
          [''Authorization'' \<mapsto> ''Bearer '' @
             format_value demo_env (dict_get (request_data ?c0) (name ?step @ ''_token''))]"
    using prepare_headers_lookup [of ?c0 ?step demo_env] present by blast
  then have second: "prepare_headers demo_env ?step ?c0 = [''Authorization'' \<mapsto> ''Bearer t0'']"
    by (simp add: demo_step_def demo_context_def dict_get_def format_value_def)
  let ?prof = "demo_step ''match_analysis_user_profession'' None"
  let ?c2 = "demo_context [(''suggest_course_profession_token'', PStr ''p2''),
                    (''match_user_career_token'', PStr ''p1'')]"
  have absent2: "\<not> truthy (dict_get (request_data ?c2) (name ?prof @ ''_token''))"
    by (simp add: demo_step_def demo_context_def dict_get_def)
  have keys2: "generic_token_keys ?prof =
      [''match_user_profession_token''] @ ''match_user_career_token''
        # [''match_analysis_user_profession_token'', ''gap_analysis_user_profession_token'',
           ''suggest_course_profession_token'']"
    by (simp add: generic_token_keys_def profession_token_keys_def demo_step_def str_in_def
        sublist_code)
  have before2: "\<forall>k'\<in>set [''match_user_profession_token'']. \<not> dict_has (request_data ?c2) k'"
    by (simp add: demo_context_def dict_has_def)
  have here2: "dict_has (request_data ?c2) ''match_user_career_token''"
    by (simp add: demo_context_def dict_has_def)
  have "prepare_headers demo_env ?prof ?c2 =
          (if truthy (dict_get (request_data ?c2) ''match_user_career_token'')
           then [''Authorization'' \<mapsto> ''Bearer '' @
                  format_value demo_env (dict_get (request_data ?c2) ''match_user_career_token'')]
           else Map.empty)"
    using prepare_headers_lookup [of ?c2 ?prof demo_env] absent2 keys2 before2 here2
    by blast
  then have third: "prepare_headers demo_env ?prof ?c2 = [''Authorization'' \<mapsto> ''Bearer p1'']"
    by (simp add: demo_context_def dict_get_def format_value_def)
  let ?car = "demo_step ''match_usuario_carreira'' (Some ''profession_parallel'')"
  let ?c3 = "demo_context [(''match_candidato_token'', PStr ''t1'')]"
  have absent3: "\<not> truthy (dict_get (request_data ?c3) (name ?car @ ''_token''))"
    by (simp add: demo_step_def demo_context_def dict_get_def)
  have none3: "\<forall>k\<in>set (generic_token_keys ?car). \<not> dict_has (request_data ?c3) k"
    by (simp add: generic_token_keys_def profession_token_keys_def demo_step_def str_in_def
        sublist_code demo_context_def dict_has_def)
  have fourth: "prepare_headers demo_env ?car ?c3 = Map.empty"
    using prepare_headers_lookup [of ?c3 ?car demo_env] absent3 none3
    by blast
  show ?thesis
    using first second third fourth by simp
qed

text \<open>
  C9 as first stated lets the fallback depend on the key of the step being absent. Here
  that key is present, with the empty string as its value; the generic keys are consulted
  all the same, and the headers carry the token found under \<open>match_candidato_token\<close>.
\<close>

theorem prepare_headers_lookup_counterexample:
  "dict_has
     (request_data (demo_context [(''gap_analysis_user_vacancy_token'', PStr []),
                                  (''match_candidato_token'', PStr ''t1'')]))
     (name (demo_step ''gap_analysis_user_vacancy'' None) @ ''_token'') \<and>
   dict_get
     (request_data (demo_context [(''gap_analysis_user_vacancy_token'', PStr []),
                                  (''match_candidato_token'', PStr ''t1'')]))
     (name (demo_step ''gap_analysis_user_vacancy'' None) @ ''_token'') = PStr [] \<and>
   prepare_headers demo_env (demo_step ''gap_analysis_user_vacancy'' None)
     (demo_context [(''gap_analysis_user_vacancy_token'', PStr []),
                    (''match_candidato_token'', PStr ''t1'')])
     = [''Authorization'' \<mapsto> ''Bearer t1'']"
  by (simp add: prepare_headers_def Let_def demo_step_def demo_context_def demo_env_def
      dict_get_def dict_has_def vacancy_token_keys_def str_in_def sublist_code format_value_def)


section \<open>Properties of the step runner\<close>

lemma execute_step_try_rule:
  assumes "skipped_by_rule step ctx"
  shows "execute_step_try env w step ctx =
     (Inr \<lparr>step_name = name step, status = SKIPPED, response = PNone,
       error = Some (''Skipped: '' @
                 (case snd (should_skip_step step (request_data ctx)) of
                    Some reason \<Rightarrow> reason | None \<Rightarrow> ''None'')),
       error_details = None, url = None, status_code = None\<rparr>, w)"
proof -
  obtain b r where br: "should_skip_step step (request_data ctx) = (b, r)"
    by (cases "should_skip_step step (request_data ctx)")
  with assms have "b" by (simp add: skipped_by_rule_def)
  with br show ?thesis by (simp add: execute_step_try_def)
qed

lemma execute_step_try_not_rule:
  assumes "\<not> skipped_by_rule step ctx"
  shows "execute_step_try env w step ctx =
     (case get_url env step of
        None \<Rightarrow>
          (Inr \<lparr>step_name = name step, status = SKIPPED, response = PNone,
                error = Some (''URL not configured: '' @ url_env_var step),
                error_details = None, url = None, status_code = None\<rparr>, w)
      | Some u \<Rightarrow>
          if u = [] then
            (Inr \<lparr>step_name = name step, status = SKIPPED, response = PNone,
                  error = Some (''URL not configured: '' @ url_env_var step),
                  error_details = None, url = None, status_code = None\<rparr>, w)
          else
            case http_post env w u (prepare_payload step ctx) (prepare_headers env step ctx)
                   (timeout step) of
              (Inl e, w') \<Rightarrow> (Inl e, w')
            | (Inr resp, w') \<Rightarrow>
                (Inr \<lparr>step_name = name step,
                      status = (if is_success resp then SUCCESS else FAILED),
                      response = resp_body resp,
                      error =
                        (if is_success resp then None
                         else Some (case resp_error resp of
                                      None \<Rightarrow> ''HTTP '' @ str_of_int (resp_status_code resp)
                                    | Some e \<Rightarrow>
                                        if e = [] then
                                          ''HTTP '' @ str_of_int (resp_status_code resp)
                                        else e)),
                      error_details = None, url = Some u,
                      status_code = Some (resp_status_code resp)\<rparr>, w'))"
proof -
  obtain b r where br: "should_skip_step step (request_data ctx) = (b, r)"
    by (cases "should_skip_step step (request_data ctx)")
  with assms have "\<not> b" by (simp add: skipped_by_rule_def)
  with br show ?thesis by (simp add: execute_step_try_def Let_def split: option.splits)
qed

lemma execute_step_rule:
  "skipped_by_rule step ctx \<Longrightarrow>
   execute_step env w step ctx =
     (\<lparr>step_name = name step, status = SKIPPED, response = PNone,
       error = Some (''Skipped: '' @
                 (case snd (should_skip_step step (request_data ctx)) of
                    Some reason \<Rightarrow> reason | None \<Rightarrow> ''None'')),
       error_details = None, url = None, status_code = None\<rparr>, w)"
  by (simp add: execute_step_def execute_step_try_rule)

lemma execute_step_unresolved:
  "\<not> skipped_by_rule step ctx \<Longrightarrow> target_unresolved env step \<Longrightarrow>
   execute_step env w step ctx =
     (\<lparr>step_name = name step, status = SKIPPED, response = PNone,
       error = Some (''URL not configured: '' @ url_env_var step),
       error_details = None, url = None, status_code = None\<rparr>, w)"
  by (auto simp: execute_step_def execute_step_try_not_rule target_unresolved_def)

lemma execute_step_try_reached:
  "\<not> skipped_by_rule step ctx \<Longrightarrow> get_url env step = Some u \<Longrightarrow> u \<noteq> [] \<Longrightarrow>
   execute_step_try env w step ctx =
     (case http_post env w u (prepare_payload step ctx) (prepare_headers env step ctx)
             (timeout step) of
        (Inl e, w') \<Rightarrow> (Inl e, w')
      | (Inr resp, w') \<Rightarrow>
          (Inr \<lparr>step_name = name step,
                status = (if is_success resp then SUCCESS else FAILED),
                response = resp_body resp,
                error =
                  (if is_success resp then None
                   else Some (case resp_error resp of
                                None \<Rightarrow> ''HTTP '' @ str_of_int (resp_status_code resp)
                              | Some e \<Rightarrow>
                                  if e = [] then ''HTTP '' @ str_of_int (resp_status_code resp)
                                  else e)),
                error_details = None, url = Some u,
                status_code = Some (resp_status_code resp)\<rparr>, w'))"
  by (simp add: execute_step_try_not_rule)

lemma execute_step_status_reached:
  "\<not> skipped_by_rule step ctx \<Longrightarrow> \<not> target_unresolved env step \<Longrightarrow>
   status (fst (execute_step env w step ctx)) \<noteq> SKIPPED"
  by (auto simp: execute_step_def execute_step_try_reached target_unresolved_def
      split: prod.splits sum.splits if_splits)

text \<open>
  C6: the result of a step is Skipped exactly when a skip rule matches or the target of
  the step is unresolved. In both cases the transport is not called: the world is left as
  it was and the result is the same under every transport. An unresolved target gives
  Skipped with the reason \<open>URL not configured\<close>, not CriticalError.
\<close>

theorem execute_step_skipped_iff:
  "(status (fst (execute_step env w step ctx)) = SKIPPED \<longleftrightarrow>
      skipped_by_rule step ctx \<or> target_unresolved env step) \<and>
   (skipped_by_rule step ctx \<or> target_unresolved env step \<longrightarrow>
      snd (execute_step env w step ctx) = w \<and>
      execute_step (env\<lparr>http_post := transport\<rparr>) w step ctx = execute_step env w step ctx) \<and>
   (\<not> skipped_by_rule step ctx \<and> target_unresolved env step \<longrightarrow>
      fst (execute_step env w step ctx) =
        \<lparr>step_name = name step, status = SKIPPED, response = PNone,
          error = Some (''URL not configured: '' @ url_env_var step),
          error_details = None, url = None, status_code = None\<rparr>)"
proof -
  have tu: "target_unresolved (env\<lparr>http_post := transport\<rparr>) step = target_unresolved env step"
    by (simp add: target_unresolved_def get_url_def)
  show ?thesis
  proof (cases "skipped_by_rule step ctx")
    case True
    then show ?thesis
      by (simp add: execute_step_rule)
  next
    case nr: False
    show ?thesis
    proof (cases "target_unresolved env step")
      case True
      with nr tu show ?thesis
        by (simp add: execute_step_unresolved)
    next
      case False
      with nr show ?thesis
        using execute_step_status_reached[of step ctx env w] by simp
    qed
  qed
qed


theorem execute_step_skipped_iff_witness:
  "execute_step (demo_env_with (Inr (demo_response 200 None))) []
     (demo_step ''match_candidato'' None) (demo_context [(''vacancy_id'', PStr ''v1'')])
     = (\<lparr>step_name = ''match_candidato'', status = SKIPPED, response = PNone,
         error = Some ''Skipped: vacancy_id provided'', error_details = None, url = None,
         status_code = None\<rparr>, []) \<and>
   execute_step (demo_env_with (Inr (demo_response 200 None))) []
     (demo_step ''match_candidato'' None) (demo_context [])
     = (\<lparr>step_name = ''match_candidato'', status = SKIPPED, response = PNone,
         error = Some ''URL not configured: URL_match_candidato'', error_details = None,
         url = None, status_code = None\<rparr>, []) \<and>
   status (fst (execute_step (demo_env_with (Inr (demo_response 200 None))) []
     (demo_step ''gap_analysis_user_vacancy'' None) (demo_context []))) = SUCCESS \<and>
   snd (execute_step (demo_env_with (Inr (demo_response 200 None))) []
     (demo_step ''gap_analysis_user_vacancy'' None) (demo_context [])) = [''http://gap'']"
proof -
  let ?env = "demo_env_with (Inr (demo_response 200 None))"
  let ?mc = "demo_step ''match_candidato'' None"
  let ?gap = "demo_step ''gap_analysis_user_vacancy'' None"
  let ?cv = "demo_context [(''vacancy_id'', PStr ''v1'')]"
  have rule: "skipped_by_rule ?mc ?cv"
    by (simp add: skipped_by_rule_def should_skip_step_def demo_step_def demo_context_def
        dict_get_def)
  have norule: "\<not> skipped_by_rule ?mc (demo_context [])"
    by (simp add: skipped_by_rule_def should_skip_step_def demo_step_def demo_context_def
        dict_get_def)
  have unres: "target_unresolved ?env ?mc"
    by (simp add: target_unresolved_def get_url_def demo_env_with_def demo_step_def)
  have norule': "\<not> skipped_by_rule ?gap (demo_context [])"
    by (simp add: skipped_by_rule_def should_skip_step_def demo_step_def demo_context_def
        dict_get_def)
  have res: "\<not> target_unresolved ?env ?gap"
    by (simp add: target_unresolved_def get_url_def demo_env_with_def demo_step_def)
  have a: "status (fst (execute_step ?env [] ?mc ?cv)) = SKIPPED \<and>
           snd (execute_step ?env [] ?mc ?cv) = []"
    using execute_step_skipped_iff [of ?env "[]" ?mc ?cv] rule by blast
  have b: "fst (execute_step ?env [] ?mc (demo_context [])) =
             \<lparr>step_name = name ?mc, status = SKIPPED, response = PNone,
               error = Some (''URL not configured: '' @ url_env_var ?mc),
               error_details = None, url = None, status_code = None\<rparr> \<and>
           snd (execute_step ?env [] ?mc (demo_context [])) = []"
    using execute_step_skipped_iff [of ?env "[]" ?mc "demo_context []"] norule unres by blast
  have c: "status (fst (execute_step ?env [] ?gap (demo_context []))) \<noteq> SKIPPED"
    using execute_step_skipped_iff [of ?env "[]" ?gap "demo_context []"] norule' res by blast
  have a': "execute_step ?env [] ?mc ?cv
     = (\<lparr>step_name = ''match_candidato'', status = SKIPPED, response = PNone,
         error = Some ''Skipped: vacancy_id provided'', error_details = None, url = None,
         status_code = None\<rparr>, [])"
    using a execute_step_rule[OF rule, of ?env "[]"]
    by (simp add: should_skip_step_def demo_step_def demo_context_def dict_get_def)
  have b': "execute_step ?env [] ?mc (demo_context [])
     = (\<lparr>step_name = ''match_candidato'', status = SKIPPED, response = PNone,
         error = Some ''URL not configured: URL_match_candidato'', error_details = None,
         url = None, status_code = None\<rparr>, [])"
    using b by (simp add: prod_eq_iff demo_step_def)
  have c': "execute_step ?env [] ?gap (demo_context []) =
      (\<lparr>step_name = ''gap_analysis_user_vacancy'', status = SUCCESS, response = PStr ''body'',
        error = None, error_details = None, url = Some ''http://gap'',
        status_code = Some 200\<rparr>, [''http://gap''])"
    using c execute_step_try_reached[OF norule', of ?env "''http://gap''" "[]"]
    by (simp add: execute_step_def get_url_def demo_env_with_def demo_step_def
        demo_response_def is_success_def)
  show ?thesis
    using a' b' c' by simp
qed

text \<open>
  C5: once the transport is called, the result is Success exactly when the status code of
  the response is in 200..299; any other response gives Failed with the error text of the
  response (or \<open>HTTP code\<close> when it has none) and its status code. A fault that leaves
  the \<open>try\<close> block, at whatever point it was raised, becomes a CriticalError result with
  the message and the traceback of the fault; in the model the transport is the one call
  that can raise. The step runner returns a result on every path.
\<close>

theorem execute_step_classification:
  "(\<forall>r w'. execute_step_try env w step ctx = (Inr r, w') \<longrightarrow>
       execute_step env w step ctx = (r, w')) \<and>
   (\<forall>e w'. execute_step_try env w step ctx = (Inl e, w') \<longrightarrow>
       execute_step env w step ctx =
         (\<lparr>step_name = name step, status = CRITICAL_ERROR, response = PNone,
           error = Some (fault_message e), error_details = Some (fault_traceback e),
           url = None, status_code = None\<rparr>, w')) \<and>
   (\<not> skipped_by_rule step ctx \<and> get_url env step = Some u \<and> u \<noteq> [] \<longrightarrow>
      (\<forall>resp w'.
         http_post env w u (prepare_payload step ctx) (prepare_headers env step ctx)
           (timeout step) = (Inr resp, w') \<longrightarrow>
         snd (execute_step env w step ctx) = w' \<and>
         (status (fst (execute_step env w step ctx)) = SUCCESS \<longleftrightarrow>
            200 \<le> resp_status_code resp \<and> resp_status_code resp < 300) \<and>
         (\<not> (200 \<le> resp_status_code resp \<and> resp_status_code resp < 300) \<longrightarrow>
            status (fst (execute_step env w step ctx)) = FAILED \<and>
            error (fst (execute_step env w step ctx)) =
              Some (case resp_error resp of
                      None \<Rightarrow> ''HTTP '' @ str_of_int (resp_status_code resp)
                    | Some e \<Rightarrow>
                        if e = [] then ''HTTP '' @ str_of_int (resp_status_code resp) else e) \<and>
            status_code (fst (execute_step env w step ctx)) = Some (resp_status_code resp))) \<and>
      (\<forall>e w'.
         http_post env w u (prepare_payload step ctx) (prepare_headers env step ctx)
           (timeout step) = (Inl e, w') \<longrightarrow>
         execute_step env w step ctx =
           (\<lparr>step_name = name step, status = CRITICAL_ERROR, response = PNone,
             error = Some (fault_message e), error_details = Some (fault_traceback e),
             url = None, status_code = None\<rparr>, w')))"
proof (intro conjI allI impI)
  fix r w'
  assume "execute_step_try env w step ctx = (Inr r, w')"
  then show "execute_step env w step ctx = (r, w')"
    by (simp add: execute_step_def)
next
  fix e w'
  assume "execute_step_try env w step ctx = (Inl e, w')"
  then show "execute_step env w step ctx =
         (\<lparr>step_name = name step, status = CRITICAL_ERROR, response = PNone,
           error = Some (fault_message e), error_details = Some (fault_traceback e),
           url = None, status_code = None\<rparr>, w')"
    by (simp add: execute_step_def)
next
  fix resp w'
  assume reach: "\<not> skipped_by_rule step ctx \<and> get_url env step = Some u \<and> u \<noteq> []"
    and post: "http_post env w u (prepare_payload step ctx) (prepare_headers env step ctx)
           (timeout step) = (Inr resp, w')"
  then have ex: "execute_step env w step ctx =
      (\<lparr>step_name = name step,
        status = (if is_success resp then SUCCESS else FAILED),
        response = resp_body resp,
        error =
          (if is_success resp then None
           else Some (case resp_error resp of
                        None \<Rightarrow> ''HTTP '' @ str_of_int (resp_status_code resp)
                      | Some e \<Rightarrow>
                          if e = [] then ''HTTP '' @ str_of_int (resp_status_code resp)
                          else e)),
        error_details = None, url = Some u,
        status_code = Some (resp_status_code resp)\<rparr>, w')"
    by (simp add: execute_step_def execute_step_try_reached)
  show "snd (execute_step env w step ctx) = w'"
    by (simp add: ex)
  show "status (fst (execute_step env w step ctx)) = SUCCESS \<longleftrightarrow>
            200 \<le> resp_status_code resp \<and> resp_status_code resp < 300"
    by (simp add: ex is_success_def)
  assume "\<not> (200 \<le> resp_status_code resp \<and> resp_status_code resp < 300)"
  then have ns: "\<not> is_success resp"
    by (simp add: is_success_def)
  show "status (fst (execute_step env w step ctx)) = FAILED"
    by (simp add: ex ns)
  show "error (fst (execute_step env w step ctx)) =
              Some (case resp_error resp of
                      None \<Rightarrow> ''HTTP '' @ str_of_int (resp_status_code resp)
                    | Some e \<Rightarrow>
                        if e = [] then ''HTTP '' @ str_of_int (resp_status_code resp) else e)"
    by (simp add: ex ns)
  show "status_code (fst (execute_step env w step ctx)) = Some (resp_status_code resp)"
    by (simp add: ex)
next
  fix e w'
  assume reach: "\<not> skipped_by_rule step ctx \<and> get_url env step = Some u \<and> u \<noteq> []"
    and post: "http_post env w u (prepare_payload step ctx) (prepare_headers env step ctx)
           (timeout step) = (Inl e, w')"
  then show "execute_step env w step ctx =
           (\<lparr>step_name = name step, status = CRITICAL_ERROR, response = PNone,
             error = Some (fault_message e), error_details = Some (fault_traceback e),
             url = None, status_code = None\<rparr>, w')"
    by (simp add: execute_step_def execute_step_try_reached)
qed


theorem execute_step_classification_witness:
  "status (fst (execute_step
       (demo_env_with (Inr (demo_response 0 (Some ''Request timeout after 120s'')))) []
       (demo_step ''gap_analysis_user_vacancy'' None) (demo_context []))) = FAILED \<and>
   error (fst (execute_step
       (demo_env_with (Inr (demo_response 0 (Some ''Request timeout after 120s'')))) []
       (demo_step ''gap_analysis_user_vacancy'' None) (demo_context [])))
     = Some ''Request timeout after 120s'' \<and>
   status_code (fst (execute_step
       (demo_env_with (Inr (demo_response 0 (Some ''Request timeout after 120s'')))) []
       (demo_step ''gap_analysis_user_vacancy'' None) (demo_context []))) = Some 0 \<and>
   error (fst (execute_step (demo_env_with (Inr (demo_response 503 None))) []
       (demo_step ''gap_analysis_user_vacancy'' None) (demo_context [])))
     = Some ''HTTP 503'' \<and>
   status (fst (execute_step (demo_env_with (Inr (demo_response 204 None))) []
       (demo_step ''gap_analysis_user_vacancy'' None) (demo_context []))) = SUCCESS \<and>
   execute_step (demo_env_with (Inl (Fault ''boom'' ''Traceback''))) []
       (demo_step ''gap_analysis_user_vacancy'' None) (demo_context [])
     = (\<lparr>step_name = ''gap_analysis_user_vacancy'', status = CRITICAL_ERROR,
         response = PNone, error = Some ''boom'', error_details = Some ''Traceback'',
         url = None, status_code = None\<rparr>, [''http://gap''])"
proof -
  let ?gap = "demo_step ''gap_analysis_user_vacancy'' None"
  let ?ctx = "demo_context []"
  let ?u = "''http://gap''"
  have reach: "\<not> skipped_by_rule ?gap ?ctx \<and> get_url (demo_env_with out) ?gap = Some ?u \<and> ?u \<noteq> []"
    for out
    by (simp add: skipped_by_rule_def should_skip_step_def demo_step_def demo_context_def
        dict_get_def get_url_def demo_env_with_def)
  have post: "http_post (demo_env_with out) [] ?u (prepare_payload ?gap ?ctx)
                (prepare_headers (demo_env_with out) ?gap ?ctx) (timeout ?gap) = (out, [?u])"
    for out
    by (simp add: demo_env_with_def)
  let ?timeout = "demo_response 0 (Some ''Request timeout after 120s'')"
  have t: "\<not> (200 \<le> resp_status_code ?timeout \<and> resp_status_code ?timeout < 300)"
    by (simp add: demo_response_def)
  have a: "status (fst (execute_step (demo_env_with (Inr ?timeout)) [] ?gap ?ctx)) = FAILED \<and>
     error (fst (execute_step (demo_env_with (Inr ?timeout)) [] ?gap ?ctx))
       = Some (case resp_error ?timeout of
                 None \<Rightarrow> ''HTTP '' @ str_of_int (resp_status_code ?timeout)
               | Some e \<Rightarrow> if e = [] then ''HTTP '' @ str_of_int (resp_status_code ?timeout)
                            else e) \<and>
     status_code (fst (execute_step (demo_env_with (Inr ?timeout)) [] ?gap ?ctx))
       = Some (resp_status_code ?timeout)"
    using execute_step_classification [of "demo_env_with (Inr ?timeout)" "[]" ?gap ?ctx ?u]
      reach [of "Inr ?timeout"] post [of "Inr ?timeout"] t
    by blast
  let ?down = "demo_response 503 None"
  have d: "\<not> (200 \<le> resp_status_code ?down \<and> resp_status_code ?down < 300)"
    by (simp add: demo_response_def)
  have b: "error (fst (execute_step (demo_env_with (Inr ?down)) [] ?gap ?ctx))
       = Some (case resp_error ?down of
                 None \<Rightarrow> ''HTTP '' @ str_of_int (resp_status_code ?down)
               | Some e \<Rightarrow> if e = [] then ''HTTP '' @ str_of_int (resp_status_code ?down)
                            else e)"
    using execute_step_classification [of "demo_env_with (Inr ?down)" "[]" ?gap ?ctx ?u]
      reach [of "Inr ?down"] post [of "Inr ?down"] d
    by blast
  let ?ok = "demo_response 204 None"
  have k: "200 \<le> resp_status_code ?ok \<and> resp_status_code ?ok < 300"
    by (simp add: demo_response_def)
  have c: "status (fst (execute_step (demo_env_with (Inr ?ok)) [] ?gap ?ctx)) = SUCCESS"
    using execute_step_classification [of "demo_env_with (Inr ?ok)" "[]" ?gap ?ctx ?u]
      reach [of "Inr ?ok"] post [of "Inr ?ok"] k
    by blast
  let ?boom = "Fault ''boom'' ''Traceback''"
  have e: "execute_step (demo_env_with (Inl ?boom)) [] ?gap ?ctx
     = (\<lparr>step_name = name ?gap, status = CRITICAL_ERROR,
         response = PNone, error = Some (fault_message ?boom),
         error_details = Some (fault_traceback ?boom),
         url = None, status_code = None\<rparr>, [?u])"
    using execute_step_classification [of "demo_env_with (Inl ?boom)" "[]" ?gap ?ctx ?u]
      reach [of "Inl ?boom"] post [of "Inl ?boom"]
    by blast
  have n: "str_of_int 503 = ''503''"
    by (simp add: str_of_int_def str_of_nat.simps)
  show ?thesis
    using a b c e n by (simp add: demo_response_def demo_step_def)
qed

section \<open>Properties of the flow execution engine\<close>

lemma foldl_add_result: "foldl add_result ctx rs = ctx\<lparr>results := results ctx @ rs\<rparr>"
  by (induction rs arbitrary: ctx) (simp_all add: add_result_def)

lemma execute_step_name: "step_name (fst (execute_step env w step ctx)) = name step"
proof (cases "skipped_by_rule step ctx")
  case True
  then show ?thesis by (simp add: execute_step_rule)
next
  case False
  then show ?thesis
    by (auto simp: execute_step_def execute_step_try_not_rule
        split: option.splits prod.splits sum.splits)
qed

lemma init_runner:
  "step_executor (FlowExecutor_init env mw) w step ctx =
     (Inr (fst (execute_step env w step ctx)), snd (execute_step env w step ctx))"
  by (simp add: FlowExecutor_init_def split: prod.splits)

lemma init_max_workers: "max_workers (FlowExecutor_init env mw) = mw"
  by (simp add: FlowExecutor_init_def)

lemma collect_completed_length:
  "length (fst (collect_completed fe pool w pending ctx)) = length pending"
proof (induction fe pool w pending ctx rule: collect_completed.induct)
  case (1 fe pool w pending ctx)
  show ?case
  proof (cases "pending = []")
    case True
    then show ?thesis by (simp add: collect_completed.simps)
  next
    case False
    let ?i = "pool w pending mod length pending"
    obtain outcome w' where o: "step_executor fe w (pending ! ?i) ctx = (outcome, w')"
      by (cases "step_executor fe w (pending ! ?i) ctx")
    have i: "?i < length pending" using False by simp
    obtain rs w'' where r: "collect_completed fe pool w' (remove_nth ?i pending) ctx = (rs, w'')"
      by (cases "collect_completed fe pool w' (remove_nth ?i pending) ctx")
    have "length (fst (collect_completed fe pool w' (remove_nth ?i pending) ctx))
            = length (remove_nth ?i pending)"
      using 1 [OF False o [symmetric]] .
    then have "length rs = length pending - 1"
      using r i by (simp add: remove_nth_def)
    then show ?thesis
      using False o r
      by (subst collect_completed.simps) simp
  qed
qed

lemma mset_remove_nth:
  "i < length xs \<Longrightarrow> mset xs = add_mset (xs ! i) (mset (remove_nth i xs))"
proof -
  assume "i < length xs"
  then have "xs = take i xs @ xs ! i # drop (Suc i) xs"
    by (simp add: id_take_nth_drop)
  then have "mset xs = mset (take i xs @ xs ! i # drop (Suc i) xs)"
    by simp
  then show ?thesis
    by (simp add: remove_nth_def)
qed

lemma collect_completed_names:
  "mset (map step_name (fst (collect_completed (FlowExecutor_init env mw) pool w pending ctx)))
     = mset (map name pending)"
proof (induction "FlowExecutor_init env mw" pool w pending ctx rule: collect_completed.induct)
  case (1 pool w pending ctx)
  let ?fe = "FlowExecutor_init env mw"
  show ?case
  proof (cases "pending = []")
    case True
    then show ?thesis by (simp add: collect_completed.simps)
  next
    case False
    let ?i = "pool w pending mod length pending"
    let ?r = "fst (execute_step env w (pending ! ?i) ctx)"
    let ?w' = "snd (execute_step env w (pending ! ?i) ctx)"
    have o: "step_executor ?fe w (pending ! ?i) ctx = (Inr ?r, ?w')"
      by (rule init_runner)
    have i: "?i < length pending" using False by simp
    have ih: "mset (map step_name (fst (collect_completed ?fe pool ?w' (remove_nth ?i pending) ctx)))
            = mset (map name (remove_nth ?i pending))"
      using 1 [OF False o [symmetric]] .
    have "fst (collect_completed ?fe pool w pending ctx)
            = ?r # fst (collect_completed ?fe pool ?w' (remove_nth ?i pending) ctx)"
      using False o
      by (subst collect_completed.simps) (simp split: prod.splits)
    then show ?thesis
      using ih mset_remove_nth [OF i] by (simp add: execute_step_name)
  qed
qed

lemma collect_completed_single:
  "collect_completed (FlowExecutor_init env mw) pool w [step] ctx =
     ([fst (execute_step env w step ctx)], snd (execute_step env w step ctx))"
  by (subst collect_completed.simps, subst collect_completed.simps)
     (simp add: init_runner remove_nth_def)


lemma execute_parallel_init:
  assumes "0 < mw" "grp \<noteq> []"
  shows "execute_parallel_steps (FlowExecutor_init env mw) pool w grp ctx =
     (Inr (fst (collect_completed (FlowExecutor_init env mw) pool w grp ctx)),
      snd (collect_completed (FlowExecutor_init env mw) pool w grp ctx))"
proof -
  have "0 < length grp" using assms(2) by simp
  then have "0 < int (length grp)" by simp
  with assms(1) have "\<not> min (int (length grp)) mw \<le> 0" by (simp add: min_def)
  then show ?thesis
    by (simp add: execute_parallel_steps_def init_max_workers split: prod.splits)
qed

lemma execute_groups_Cons:
  assumes "0 < mw" "grp \<noteq> []"
  shows "execute_groups (FlowExecutor_init env mw) pool w (grp # groups) acc ctx =
     (if critical_in (fst (collect_completed (FlowExecutor_init env mw) pool w grp ctx)) then
        (Inr (acc @ fst (collect_completed (FlowExecutor_init env mw) pool w grp ctx)),
         ctx\<lparr>results := results ctx @
                 fst (collect_completed (FlowExecutor_init env mw) pool w grp ctx)\<rparr>,
         snd (collect_completed (FlowExecutor_init env mw) pool w grp ctx))
      else
        execute_groups (FlowExecutor_init env mw) pool
          (snd (collect_completed (FlowExecutor_init env mw) pool w grp ctx)) groups
          (acc @ fst (collect_completed (FlowExecutor_init env mw) pool w grp ctx))
          (ctx\<lparr>results := results ctx @
                 fst (collect_completed (FlowExecutor_init env mw) pool w grp ctx)\<rparr>))"
proof (cases "length grp = 1")
  case True
  then obtain s where s: "grp = [s]"
    by (cases grp) auto
  show ?thesis
    by (simp add: s execute_single_step_def init_runner collect_completed_single
        critical_in_def add_result_def)
next
  case False
  then show ?thesis
    by (simp add: execute_parallel_init [OF assms] foldl_add_result critical_in_def)
qed

lemma execute_groups_frame:
  "\<exists>app. fst (snd (execute_groups fe pool w groups acc ctx)) = ctx\<lparr>results := results ctx @ app\<rparr> \<and>
         (\<forall>rs. fst (execute_groups fe pool w groups acc ctx) = Inr rs \<longrightarrow> rs = acc @ app)"
proof (induction groups arbitrary: w acc ctx)
  case Nil
  have "ctx = ctx\<lparr>results := results ctx @ []\<rparr>" by simp
  then show ?case by (intro exI [of _ "[]"]) simp
next
  case (Cons grp groups)
  show ?case
  proof (cases "length grp = 1")
    case True
    obtain out w' where o: "execute_single_step fe w (grp ! 0) ctx = (out, w')"
      by (cases "execute_single_step fe w (grp ! 0) ctx")
    show ?thesis
    proof (cases out)
      case (Inl e)
      have "ctx = ctx\<lparr>results := results ctx @ []\<rparr>" by simp
      then show ?thesis
        using True o Inl by (intro exI [of _ "[]"]) simp
    next
      case (Inr r)
      show ?thesis
      proof (cases "status r = CRITICAL_ERROR")
        case c: True
        show ?thesis
          using True o Inr c by (intro exI [of _ "[r]"]) (simp add: add_result_def)
      next
        case c: False
        obtain app where
          app: "fst (snd (execute_groups fe pool w' groups (acc @ [r]) (add_result ctx r)))
                  = (add_result ctx r)\<lparr>results := results (add_result ctx r) @ app\<rparr>"
               "\<forall>rs. fst (execute_groups fe pool w' groups (acc @ [r]) (add_result ctx r)) = Inr rs
                  \<longrightarrow> rs = (acc @ [r]) @ app"
          using Cons.IH [of w' "acc @ [r]" "add_result ctx r"] by blast
        show ?thesis
          using True o Inr c app by (intro exI [of _ "r # app"]) (simp add: add_result_def)
      qed
    qed
  next
    case False
    obtain out w' where o: "execute_parallel_steps fe pool w grp ctx = (out, w')"
      by (cases "execute_parallel_steps fe pool w grp ctx")
    show ?thesis
    proof (cases out)
      case (Inl e)
      have "ctx = ctx\<lparr>results := results ctx @ []\<rparr>" by simp
      then show ?thesis
        using False o Inl by (intro exI [of _ "[]"]) simp
    next
      case (Inr rg)
      show ?thesis
      proof (cases "list_ex (\<lambda>r. status r = CRITICAL_ERROR) rg")
        case c: True
        show ?thesis
          using False o Inr c by (intro exI [of _ rg]) (simp add: foldl_add_result)
      next
        case c: False
        obtain app where
          app: "fst (snd (execute_groups fe pool w' groups (acc @ rg) (foldl add_result ctx rg)))
                  = (foldl add_result ctx rg)\<lparr>results := results (foldl add_result ctx rg) @ app\<rparr>"
               "\<forall>rs. fst (execute_groups fe pool w' groups (acc @ rg) (foldl add_result ctx rg)) = Inr rs
                  \<longrightarrow> rs = (acc @ rg) @ app"
          using Cons.IH [of w' "acc @ rg" "foldl add_result ctx rg"] by blast
        show ?thesis
          using False o Inr c app by (intro exI [of _ "rg @ app"]) (simp add: foldl_add_result)
      qed
    qed
  qed
qed


lemma execute_groups_structure:
  assumes "0 < mw" "[] \<notin> set groups"
  shows "\<exists>rgs w'.
     execute_groups (FlowExecutor_init env mw) pool w groups acc ctx =
       (Inr (acc @ concat rgs), ctx\<lparr>results := results ctx @ concat rgs\<rparr>, w') \<and>
     length rgs \<le> length groups \<and>
     list_all2 (\<lambda>g rg. mset (map step_name rg) = mset (map name g))
       (take (length rgs) groups) rgs \<and>
     (\<forall>rg\<in>set (butlast rgs). \<not> critical_in rg) \<and>
     (length rgs < length groups \<longrightarrow> rgs \<noteq> [] \<and> critical_in (last rgs)) \<and>
     execute_groups (FlowExecutor_init env mw) pool w (take (length rgs) groups) acc ctx =
       execute_groups (FlowExecutor_init env mw) pool w groups acc ctx"
  using assms(2)
proof (induction groups arbitrary: w acc ctx)
  case Nil
  show ?case
    by (intro exI [of _ "[]"]) simp
next
  case (Cons grp groups)
  let ?fe = "FlowExecutor_init env mw"
  let ?rg = "fst (collect_completed ?fe pool w grp ctx)"
  let ?w1 = "snd (collect_completed ?fe pool w grp ctx)"
  let ?ctx1 = "ctx\<lparr>results := results ctx @ ?rg\<rparr>"
  from Cons.prems have ne: "grp \<noteq> []" and rest: "[] \<notin> set groups"
    by auto
  note unfold = execute_groups_Cons [OF assms(1) ne, of env pool w _ acc ctx]
  have names: "mset (map step_name ?rg) = mset (map name grp)"
    by (rule collect_completed_names)
  show ?case
  proof (cases "critical_in ?rg")
    case True
    show ?thesis
      using True names unfold [of groups] unfold [of "[]"]
      by (intro exI [of _ "[?rg]"] exI [of _ ?w1]) simp
  next
    case False
    obtain rgs w' where ih:
      "execute_groups ?fe pool ?w1 groups (acc @ ?rg) ?ctx1 =
         (Inr ((acc @ ?rg) @ concat rgs), ?ctx1\<lparr>results := results ?ctx1 @ concat rgs\<rparr>, w')"
      "length rgs \<le> length groups"
      "list_all2 (\<lambda>g rg. mset (map step_name rg) = mset (map name g))
         (take (length rgs) groups) rgs"
      "\<forall>rg\<in>set (butlast rgs). \<not> critical_in rg"
      "length rgs < length groups \<longrightarrow> rgs \<noteq> [] \<and> critical_in (last rgs)"
      "execute_groups ?fe pool ?w1 (take (length rgs) groups) (acc @ ?rg) ?ctx1 =
         execute_groups ?fe pool ?w1 groups (acc @ ?rg) ?ctx1"
      using Cons.IH [OF rest, of ?w1 "acc @ ?rg" ?ctx1] by blast
    have a: "execute_groups ?fe pool w (grp # groups) acc ctx =
       (Inr (acc @ concat (?rg # rgs)), ctx\<lparr>results := results ctx @ concat (?rg # rgs)\<rparr>, w')"
      using False unfold [of groups] ih(1) by simp
    have b: "length (?rg # rgs) \<le> length (grp # groups)"
      using ih(2) by simp
    have c: "list_all2 (\<lambda>g rg. mset (map step_name rg) = mset (map name g))
       (take (length (?rg # rgs)) (grp # groups)) (?rg # rgs)"
      using names ih(3) by simp
    have d: "\<forall>rg\<in>set (butlast (?rg # rgs)). \<not> critical_in rg"
      using False ih(4) by simp
    have e: "length (?rg # rgs) < length (grp # groups) \<longrightarrow>
               ?rg # rgs \<noteq> [] \<and> critical_in (last (?rg # rgs))"
      using ih(5) by simp
    have f: "execute_groups ?fe pool w (take (length (?rg # rgs)) (grp # groups)) acc ctx =
       execute_groups ?fe pool w (grp # groups) acc ctx"
      using False unfold [of groups] unfold [of "take (length rgs) groups"] ih(6) by simp
    show ?thesis
      using a b c d e f by blast
  qed
qed

lemma names_concat:
  "list_all2 (\<lambda>g rg. mset (map step_name rg) = mset (map name g)) gs rgs \<Longrightarrow>
   mset (map step_name (concat rgs)) = mset (map name (concat gs))"
  by (induction rule: list_all2_induct) simp_all

lemma untagged_plan:
  "\<forall>s\<in>set steps. \<not> tagged s \<Longrightarrow> plan_spec steps = map (\<lambda>s. [s]) steps"
  by (induction steps) simp_all

lemma names_singletons:
  "list_all2 (\<lambda>g rg. mset (map step_name rg) = mset (map name g)) (map (\<lambda>s. [s]) xs) rgs \<Longrightarrow>
   map step_name (concat rgs) = map name xs"
proof (induction xs arbitrary: rgs)
  case Nil
  then show ?case by simp
next
  case (Cons x xs)
  then obtain rg rgs' where r: "rgs = rg # rgs'"
      "mset (map step_name rg) = mset (map name [x])"
      "list_all2 (\<lambda>g rg. mset (map step_name rg) = mset (map name g)) (map (\<lambda>s. [s]) xs) rgs'"
    by (auto simp: list_all2_Cons1)
  from r(2) have "mset (map step_name rg) = {#name x#}"
    by simp
  then have "map step_name rg = [name x]"
    by (simp only: mset_single_iff)
  with Cons.IH [OF r(3)] r(1) show ?case by simp
qed

lemma critical_in_concat_last:
  "rgs \<noteq> [] \<Longrightarrow> critical_in (last rgs) \<Longrightarrow> critical_in (concat rgs)"
proof -
  assume "rgs \<noteq> []" "critical_in (last rgs)"
  moreover from \<open>rgs \<noteq> []\<close> have "last rgs \<in> set rgs" by simp
  ultimately show ?thesis
    by (auto simp: critical_in_def list_ex_iff)
qed

lemma critical_in_statuses:
  "critical_in rs \<longleftrightarrow> CRITICAL_ERROR \<in> snd ` set (map (\<lambda>r. (step_name r, status r)) rs)"
  by (induction rs) (auto simp: critical_in_def)

text \<open>
  C1: the engine runs the groups in order. Its results are those of the first \<open>n\<close> groups,
  each group with as many results as it has steps; none of these groups but the last
  holds a critical error, and when \<open>n\<close> is less than the number of groups the last one does.
  The groups after the \<open>n\<close>-th play no part: the run on the first \<open>n\<close> groups alone gives the
  same results, the same context and the same world. The pool is not empty
  (\<open>0 < max_workers\<close>) and no group is empty, as the planner guarantees.
\<close>

theorem execute_groups_abort:
  assumes "0 < mw" and "[] \<notin> set groups"
  shows "\<exists>rgs w'.
     execute_groups (FlowExecutor_init env mw) pool w groups [] ctx =
       (Inr (concat rgs), ctx\<lparr>results := results ctx @ concat rgs\<rparr>, w') \<and>
     length rgs \<le> length groups \<and>
     list_all2 (\<lambda>g rg. length rg = length g) (take (length rgs) groups) rgs \<and>
     (\<forall>rg\<in>set (butlast rgs). \<not> critical_in rg) \<and>
     (length rgs < length groups \<longrightarrow> rgs \<noteq> [] \<and> critical_in (last rgs)) \<and>
     execute_groups (FlowExecutor_init env mw) pool w (take (length rgs) groups) [] ctx =
       execute_groups (FlowExecutor_init env mw) pool w groups [] ctx"
proof -
  obtain rgs w' where s:
    "execute_groups (FlowExecutor_init env mw) pool w groups [] ctx =
       (Inr ([] @ concat rgs), ctx\<lparr>results := results ctx @ concat rgs\<rparr>, w')"
    "length rgs \<le> length groups"
    "list_all2 (\<lambda>g rg. mset (map step_name rg) = mset (map name g))
       (take (length rgs) groups) rgs"
    "\<forall>rg\<in>set (butlast rgs). \<not> critical_in rg"
    "length rgs < length groups \<longrightarrow> rgs \<noteq> [] \<and> critical_in (last rgs)"
    "execute_groups (FlowExecutor_init env mw) pool w (take (length rgs) groups) [] ctx =
       execute_groups (FlowExecutor_init env mw) pool w groups [] ctx"
    using execute_groups_structure [OF assms, of env pool w "[]" ctx] by blast
  have "length rg = length g" if "mset (map step_name rg) = mset (map name g)" for rg g
    using that by (metis length_map size_mset)
  with s(3) have "list_all2 (\<lambda>g rg. length rg = length g) (take (length rgs) groups) rgs"
    by (rule list_all2_mono)
  with s show ?thesis
    by (intro exI [of _ rgs] exI [of _ w']) simp
qed

theorem execute_groups_abort_witness:
  "(0::int) < 4 \<and> [] \<notin> set demo_groups \<and>
   summary (execute_groups (FlowExecutor_init demo_flow_env 4) demo_pool [] demo_groups []
      (demo_context []))
     = (Some [(''a'', SUCCESS), (''bad'', CRITICAL_ERROR), (''c'', SUCCESS), (''b'', SUCCESS)],
        [''a'', ''bad'', ''c'', ''b''],
        [''http://a'', ''http://bad'', ''http://c'', ''http://b'']) \<and>
   execute_groups (FlowExecutor_init demo_flow_env 4) demo_pool [] (take 2 demo_groups) []
      (demo_context [])
     = execute_groups (FlowExecutor_init demo_flow_env 4) demo_pool [] demo_groups []
      (demo_context [])"
proof -
  have h1: "(0::int) < 4" by simp
  have h2: "[] \<notin> set demo_groups" by (simp add: demo_groups_def)
  have run: "summary (execute_groups (FlowExecutor_init demo_flow_env 4) demo_pool []
      demo_groups [] (demo_context []))
     = (Some [(''a'', SUCCESS), (''bad'', CRITICAL_ERROR), (''c'', SUCCESS), (''b'', SUCCESS)],
        [''a'', ''bad'', ''c'', ''b''],
        [''http://a'', ''http://bad'', ''http://c'', ''http://b''])"
    by code_simp
  obtain rgs w' where s:
    "execute_groups (FlowExecutor_init demo_flow_env 4) demo_pool [] demo_groups []
        (demo_context []) =
       (Inr (concat rgs), (demo_context [])\<lparr>results := results (demo_context []) @ concat rgs\<rparr>, w')"
    "length rgs \<le> length demo_groups"
    "list_all2 (\<lambda>g rg. length rg = length g) (take (length rgs) demo_groups) rgs"
    "execute_groups (FlowExecutor_init demo_flow_env 4) demo_pool []
        (take (length rgs) demo_groups) [] (demo_context []) =
     execute_groups (FlowExecutor_init demo_flow_env 4) demo_pool [] demo_groups []
        (demo_context [])"
    using execute_groups_abort [OF h1 h2, of demo_flow_env demo_pool "[]" "demo_context []"]
    by blast
  from run s(1) have len: "length (concat rgs) = 4"
    by (auto simp: summary_def dest: arg_cong [where f = length])
  have "length rgs = 2"
  proof -
    from s(2) have "length rgs \<le> 3" by (simp add: demo_groups_def)
    then consider "length rgs = 0" | "length rgs = 1" | "length rgs = 2" | "length rgs = 3"
      by linarith
    then show ?thesis
    proof cases
      case 1
      then show ?thesis using len by simp
    next
      case 2
      then obtain r1 where "rgs = [r1]"
        by (cases rgs) auto
      with s(3) len show ?thesis
        by (simp add: demo_groups_def)
    next
      case 3
      then show ?thesis .
    next
      case 4
      then obtain r1 r2 r3 where "rgs = [r1, r2, r3]"
        by (cases rgs; cases "tl rgs"; cases "tl (tl rgs)") auto
      with s(3) len show ?thesis
        by (simp add: demo_groups_def)
    qed
  qed
  with s(4) have "execute_groups (FlowExecutor_init demo_flow_env 4) demo_pool []
      (take 2 demo_groups) [] (demo_context [])
     = execute_groups (FlowExecutor_init demo_flow_env 4) demo_pool [] demo_groups []
      (demo_context [])"
    by simp
  with h1 h2 run show ?thesis
    by blast
qed

text \<open>
  C4: a parallel group of N steps gives N results, one under the name of each step. The
  results of a flow are, group by group in the order of the groups, the names of the steps
  of the group in some order, so that a step on its own keeps its place; they are also what
  the context receives. Without a critical error every group is run and there are as many
  results as steps, one per step. When no step is tagged the results follow the order of
  the steps.
\<close>

theorem execute_flow_one_result_per_step:
  assumes "0 < mw"
  shows
   "(\<forall>grp. grp \<noteq> [] \<longrightarrow>
       (\<exists>rs w'. execute_parallel_steps (FlowExecutor_init env mw) pool w grp ctx = (Inr rs, w') \<and>
          length rs = length grp \<and> mset (map step_name rs) = mset (map name grp))) \<and>
    (\<exists>rgs w'.
       execute_flow (FlowExecutor_init env mw) pool w steps ctx =
         (Inr (concat rgs), ctx\<lparr>results := results ctx @ concat rgs\<rparr>, w') \<and>
       length rgs \<le> length (group_steps_by_parallelism steps) \<and>
       list_all2 (\<lambda>g rg. mset (map step_name rg) = mset (map name g))
         (take (length rgs) (group_steps_by_parallelism steps)) rgs \<and>
       (\<not> critical_in (concat rgs) \<longrightarrow>
          length rgs = length (group_steps_by_parallelism steps) \<and>
          length (concat rgs) = length steps \<and>
          mset (map step_name (concat rgs)) = mset (map name steps)) \<and>
       ((\<forall>s\<in>set steps. \<not> tagged s) \<longrightarrow>
          map step_name (concat rgs) = take (length (concat rgs)) (map name steps)))"
proof (intro conjI allI impI)
  fix grp :: "FlowStep list"
  assume "grp \<noteq> []"
  then show "\<exists>rs w'. execute_parallel_steps (FlowExecutor_init env mw) pool w grp ctx = (Inr rs, w') \<and>
          length rs = length grp \<and> mset (map step_name rs) = mset (map name grp)"
    using execute_parallel_init [OF assms, of grp env pool w ctx]
      collect_completed_length [of "FlowExecutor_init env mw" pool w grp ctx]
      collect_completed_names [of env mw pool w grp ctx]
    by simp
next
  let ?groups = "group_steps_by_parallelism steps"
  have ne: "[] \<notin> set ?groups"
    by (simp add: group_steps_by_parallelism_def group_loop_nonempty)
  have cat: "concat ?groups = steps"
    by (simp add: group_steps_by_parallelism_def group_loop_concat)
  obtain rgs w' where s:
    "execute_groups (FlowExecutor_init env mw) pool w ?groups [] ctx =
       (Inr ([] @ concat rgs), ctx\<lparr>results := results ctx @ concat rgs\<rparr>, w')"
    "length rgs \<le> length ?groups"
    "list_all2 (\<lambda>g rg. mset (map step_name rg) = mset (map name g))
       (take (length rgs) ?groups) rgs"
    "length rgs < length ?groups \<longrightarrow> rgs \<noteq> [] \<and> critical_in (last rgs)"
    using execute_groups_structure [OF assms ne, of env pool w "[]" ctx] by blast
  have full: "length rgs = length ?groups \<and> length (concat rgs) = length steps \<and>
          mset (map step_name (concat rgs)) = mset (map name steps)"
    if nc: "\<not> critical_in (concat rgs)"
  proof -
    from nc s(4) critical_in_concat_last [of rgs] have "\<not> length rgs < length ?groups"
      by blast
    with s(2) have l: "length rgs = length ?groups" by simp
    with s(3) have "list_all2 (\<lambda>g rg. mset (map step_name rg) = mset (map name g)) ?groups rgs"
      by simp
    then have "mset (map step_name (concat rgs)) = mset (map name (concat ?groups))"
      by (rule names_concat)
    then have m: "mset (map step_name (concat rgs)) = mset (map name steps)"
      by (simp only: cat)
    then have "length (concat rgs) = length steps"
      by (metis length_map size_mset)
    with l m show ?thesis by simp
  qed
  have order: "map step_name (concat rgs) = take (length (concat rgs)) (map name steps)"
    if un: "\<forall>s\<in>set steps. \<not> tagged s"
  proof -
    from un have g: "?groups = map (\<lambda>s. [s]) steps"
      by (simp add: plan_refines untagged_plan)
    have "take (length rgs) ?groups = map (\<lambda>s. [s]) (take (length rgs) steps)"
      by (simp add: g take_map)
    with s(3) have "list_all2 (\<lambda>g rg. mset (map step_name rg) = mset (map name g))
        (map (\<lambda>s. [s]) (take (length rgs) steps)) rgs"
      by simp
    then have n: "map step_name (concat rgs) = map name (take (length rgs) steps)"
      by (rule names_singletons)
    from s(2) g have "length rgs \<le> length steps" by simp
    with n have "length (concat rgs) = length rgs"
      by (metis length_map length_take min.absorb2)
    with n show ?thesis
      by (simp add: take_map)
  qed
  show "\<exists>rgs w'.
       execute_flow (FlowExecutor_init env mw) pool w steps ctx =
         (Inr (concat rgs), ctx\<lparr>results := results ctx @ concat rgs\<rparr>, w') \<and>
       length rgs \<le> length ?groups \<and>
       list_all2 (\<lambda>g rg. mset (map step_name rg) = mset (map name g))
         (take (length rgs) ?groups) rgs \<and>
       (\<not> critical_in (concat rgs) \<longrightarrow>
          length rgs = length ?groups \<and>
          length (concat rgs) = length steps \<and>
          mset (map step_name (concat rgs)) = mset (map name steps)) \<and>
       ((\<forall>s\<in>set steps. \<not> tagged s) \<longrightarrow>
          map step_name (concat rgs) = take (length (concat rgs)) (map name steps))"
    using s(1,2,3) full order
    by (intro exI [of _ rgs] exI [of _ w']) (simp add: execute_flow_def)
qed


theorem execute_flow_one_result_per_step_witness:
  "(0::int) < 4 \<and>
   summary (execute_flow (FlowExecutor_init demo_flow_env 4) demo_pool [] demo_steps
      (demo_context []))
     = (Some [(''a'', SUCCESS), (''down'', FAILED), (''c'', SUCCESS), (''b'', SUCCESS),
              (''off'', SKIPPED), (''d'', SUCCESS)],
        [''a'', ''down'', ''c'', ''b'', ''off'', ''d''],
        [''http://a'', ''http://down'', ''http://c'', ''http://b'', ''http://d'']) \<and>
   mset [''a'', ''down'', ''c'', ''b'', ''off'', ''d''] = mset (map name demo_steps)"
proof -
  have h: "(0::int) < 4" by simp
  have run: "summary (execute_flow (FlowExecutor_init demo_flow_env 4) demo_pool [] demo_steps
      (demo_context []))
     = (Some [(''a'', SUCCESS), (''down'', FAILED), (''c'', SUCCESS), (''b'', SUCCESS),
              (''off'', SKIPPED), (''d'', SUCCESS)],
        [''a'', ''down'', ''c'', ''b'', ''off'', ''d''],
        [''http://a'', ''http://down'', ''http://c'', ''http://b'', ''http://d''])"
    by code_simp
  obtain rgs w' where s:
    "execute_flow (FlowExecutor_init demo_flow_env 4) demo_pool [] demo_steps (demo_context []) =
       (Inr (concat rgs),
        (demo_context [])\<lparr>results := results (demo_context []) @ concat rgs\<rparr>, w')"
    "\<not> critical_in (concat rgs) \<longrightarrow>
       length rgs = length (group_steps_by_parallelism demo_steps) \<and>
       length (concat rgs) = length demo_steps \<and>
       mset (map step_name (concat rgs)) = mset (map name demo_steps)"
    using execute_flow_one_result_per_step
      [OF h, of demo_flow_env demo_pool "[]" "demo_context []" demo_steps]
    by blast
  from run s(1) have m: "map (\<lambda>r. (step_name r, status r)) (concat rgs) =
      [(''a'', SUCCESS), (''down'', FAILED), (''c'', SUCCESS), (''b'', SUCCESS),
       (''off'', SKIPPED), (''d'', SUCCESS)]"
    by (simp add: summary_def)
  then have "\<not> critical_in (concat rgs)"
    by (simp add: critical_in_statuses)
  with s(2) have "mset (map step_name (concat rgs)) = mset (map name demo_steps)"
    by blast
  moreover from m have "map fst (map (\<lambda>r. (step_name r, status r)) (concat rgs)) =
      [''a'', ''down'', ''c'', ''b'', ''off'', ''d'']"
    by simp
  then have "map step_name (concat rgs) = [''a'', ''down'', ''c'', ''b'', ''off'', ''d'']"
    by (simp add: comp_def)
  ultimately have "mset [''a'', ''down'', ''c'', ''b'', ''off'', ''d''] = mset (map name demo_steps)"
    by simp
  with h run show ?thesis
    by blast
qed

text \<open>
  C7: whatever the executor, a run changes the context only in its list of results, which
  grows at the end; when the run returns, what was appended is the returned list. The
  execution id, user id, session id, flow name and request parameters stay as they were.
  With the step runner of this program and a pool that is not empty the run does return.
\<close>

theorem execute_flow_appends_only:
  "(\<exists>appended.
      fst (snd (execute_flow fe pool w steps ctx)) = ctx\<lparr>results := results ctx @ appended\<rparr> \<and>
      (\<forall>rs. fst (execute_flow fe pool w steps ctx) = Inr rs \<longrightarrow> rs = appended)) \<and>
   execution_id (fst (snd (execute_flow fe pool w steps ctx))) = execution_id ctx \<and>
   user_id (fst (snd (execute_flow fe pool w steps ctx))) = user_id ctx \<and>
   session_id (fst (snd (execute_flow fe pool w steps ctx))) = session_id ctx \<and>
   flow_name (fst (snd (execute_flow fe pool w steps ctx))) = flow_name ctx \<and>
   request_data (fst (snd (execute_flow fe pool w steps ctx))) = request_data ctx \<and>
   (0 < mw \<longrightarrow>
      (\<exists>rs. fst (execute_flow (FlowExecutor_init env mw) pool w steps ctx) = Inr rs \<and>
         results (fst (snd (execute_flow (FlowExecutor_init env mw) pool w steps ctx)))
           = results ctx @ rs))"
proof -
  obtain app where app:
    "fst (snd (execute_flow fe pool w steps ctx)) = ctx\<lparr>results := results ctx @ app\<rparr>"
    "\<forall>rs. fst (execute_flow fe pool w steps ctx) = Inr rs \<longrightarrow> rs = [] @ app"
    using execute_groups_frame [of fe pool w "group_steps_by_parallelism steps" "[]" ctx]
    by (auto simp: execute_flow_def)
  have total: "\<exists>rs. fst (execute_flow (FlowExecutor_init env mw) pool w steps ctx) = Inr rs \<and>
         results (fst (snd (execute_flow (FlowExecutor_init env mw) pool w steps ctx)))
           = results ctx @ rs"
    if mw: "0 < mw"
  proof -
    have ne: "[] \<notin> set (group_steps_by_parallelism steps)"
      by (simp add: group_steps_by_parallelism_def group_loop_nonempty)
    obtain rgs w' where
      "execute_groups (FlowExecutor_init env mw) pool w (group_steps_by_parallelism steps) [] ctx =
         (Inr ([] @ concat rgs), ctx\<lparr>results := results ctx @ concat rgs\<rparr>, w')"
      using execute_groups_structure [OF mw ne, of env pool w "[]" ctx] by blast
    then show ?thesis
      by (simp add: execute_flow_def)
  qed
  from app have "\<exists>appended.
      fst (snd (execute_flow fe pool w steps ctx)) = ctx\<lparr>results := results ctx @ appended\<rparr> \<and>
      (\<forall>rs. fst (execute_flow fe pool w steps ctx) = Inr rs \<longrightarrow> rs = appended)"
    by (intro exI [of _ app]) simp
  with app(1) total show ?thesis
    by simp
qed

theorem execute_flow_appends_only_witness:
  "(0::int) < 4 \<and>
   summary (execute_flow (FlowExecutor_init demo_flow_env 4) demo_pool [] (concat demo_groups)
      (add_result (demo_context [(''k'', PInt 1)]) demo_earlier))
     = (Some [(''a'', SUCCESS), (''bad'', CRITICAL_ERROR), (''c'', SUCCESS), (''b'', SUCCESS)],
        [''earlier'', ''a'', ''bad'', ''c'', ''b''],
        [''http://a'', ''http://bad'', ''http://c'', ''http://b'']) \<and>
   request_data (fst (snd (execute_flow (FlowExecutor_init demo_flow_env 4) demo_pool []
      (concat demo_groups) (add_result (demo_context [(''k'', PInt 1)]) demo_earlier))))
     = [''k'' \<mapsto> PInt 1]"
proof -
  let ?ctx = "add_result (demo_context [(''k'', PInt 1)]) demo_earlier"
  have h: "(0::int) < 4" by simp
  have run: "summary (execute_flow (FlowExecutor_init demo_flow_env 4) demo_pool []
      (concat demo_groups) ?ctx)
     = (Some [(''a'', SUCCESS), (''bad'', CRITICAL_ERROR), (''c'', SUCCESS), (''b'', SUCCESS)],
        [''earlier'', ''a'', ''bad'', ''c'', ''b''],
        [''http://a'', ''http://bad'', ''http://c'', ''http://b''])"
    by code_simp
  have "request_data (fst (snd (execute_flow (FlowExecutor_init demo_flow_env 4) demo_pool []
      (concat demo_groups) ?ctx))) = request_data ?ctx"
    using execute_flow_appends_only
      [of "FlowExecutor_init demo_flow_env 4" demo_pool "[]" "concat demo_groups" ?ctx 4
          demo_flow_env]
    by blast
  then have "request_data (fst (snd (execute_flow (FlowExecutor_init demo_flow_env 4) demo_pool []
      (concat demo_groups) ?ctx))) = [''k'' \<mapsto> PInt 1]"
    by (simp add: add_result_def demo_context_def)
  with h run show ?thesis
    by blast
qed


end
